theory Spec2Isabelle
  imports Complex_Main "HOL-Library.Sublist"
begin

text \<open>
  A model of the class \<^verbatim>\<open>PSBots\<close>: its constructor, \<^verbatim>\<open>getEntry\<close>,
  \<^verbatim>\<open>connect\<close>, \<^verbatim>\<open>shutdown\<close>, \<^verbatim>\<open>battle\<close> and the helper \<^verbatim>\<open>awaitws\<close>.  The
  repository holds two revisions of it; the model follows the later one, the one whose
  \<^verbatim>\<open>battle\<close> is a chain of \<^verbatim>\<open>awaitws\<close> calls and returns the room URL together
  with the replay promise (the text after line 701 of \<^verbatim>\<open>src/MetagameHelper.js\<close>).
  The constructor, \<^verbatim>\<open>getEntry\<close> and \<^verbatim>\<open>shutdown\<close> are the same in both.  Promises
  are modelled by their state; every event (a frame on a socket, a timer, the answer to a
  request) is one step of a state, and the continuations of a promise run inside the
  step that settles it.
\<close>

section \<open>JavaScript values and the string primitives the bots use\<close>

text \<open>
  The values that flow through \<^verbatim>\<open>PSBots\<close>: the \<^verbatim>\<open>auth\<close> array, the battle
  argument, what \<^verbatim>\<open>JSON.parse\<close> returns and what a predicate returns.  An object is
  the list of its own properties (each key once); numbers are the integers.  Strings are
  lists of characters; the two characters that cannot be written inside a literal are
  named.
\<close>

datatype jsval =
    JUndefined
  | JNull
  | JBool bool
  | JNum int
  | JStr string
  | JArr "jsval list"
  | JObj "(string \<times> jsval) list"

text \<open>
  What a promise is rejected with: the object \<^verbatim>\<open>{ reason, msgraw }\<close> or the string
  \<^verbatim>\<open>"Timed out (awaitws)."\<close> of \<^verbatim>\<open>awaitws\<close>, or a thrown error.
\<close>

datatype rejection =
    Reason string string
  | TimedOut

datatype error =
    TypeError
  | SyntaxError
  | Err string
  | CouldNotConnect jsval
  | CouldNotLogin jsval jsval
  | FetchFailed
  | Awaited rejection

definition backslash :: char where
  "backslash = CHR 0x5C"

definition bsn :: string where
  "bsn = [CHR 0x5C, CHR ''n'']"

text \<open>\<^verbatim>\<open>!x\<close> is \<open>\<not> js_truthy x\<close>.\<close>

fun js_truthy :: "jsval \<Rightarrow> bool" where
  "js_truthy JUndefined = False"
| "js_truthy JNull = False"
| "js_truthy (JBool b) = b"
| "js_truthy (JNum n) = (n \<noteq> 0)"
| "js_truthy (JStr s) = (s \<noteq> [])"
| "js_truthy (JArr xs) = True"
| "js_truthy (JObj kvs) = True"

fun js_typeof :: "jsval \<Rightarrow> string" where
  "js_typeof JUndefined = ''undefined''"
| "js_typeof JNull = ''object''"
| "js_typeof (JBool b) = ''boolean''"
| "js_typeof (JNum n) = ''number''"
| "js_typeof (JStr s) = ''string''"
| "js_typeof (JArr xs) = ''object''"
| "js_typeof (JObj kvs) = ''object''"

fun is_array :: "jsval \<Rightarrow> bool" where
  "is_array (JArr xs) = True"
| "is_array v = False"

text \<open>
  \<^verbatim>\<open>v.k\<close> for the property names the source reads (\<^verbatim>\<open>name\<close>, \<^verbatim>\<open>pass\<close>, \<^verbatim>\<open>ws\<close>,
  \<^verbatim>\<open>team\<close>, \<^verbatim>\<open>rooms\<close>, ...; never an index or \<^verbatim>\<open>length\<close>): a TypeError on
  \<^verbatim>\<open>undefined\<close> and \<^verbatim>\<open>null\<close>, \<^verbatim>\<open>undefined\<close> on any other value that is not an
  object holding the key.
\<close>

fun js_get :: "jsval \<Rightarrow> string \<Rightarrow> error + jsval" where
  "js_get JUndefined k = Inl TypeError"
| "js_get JNull k = Inl TypeError"
| "js_get (JObj kvs) k = Inr (case map_of kvs k of None \<Rightarrow> JUndefined | Some v \<Rightarrow> v)"
| "js_get v k = Inr JUndefined"

text \<open>
  \<^verbatim>\<open>a === b\<close>.  Objects and arrays are equal only to themselves; the comparisons of the
  source are between a value of the caller and a freshly decoded one, never the same
  object.
\<close>

fun strict_eq :: "jsval \<Rightarrow> jsval \<Rightarrow> bool" where
  "strict_eq JUndefined JUndefined = True"
| "strict_eq JNull JNull = True"
| "strict_eq (JBool a) (JBool b) = (a = b)"
| "strict_eq (JNum a) (JNum b) = (a = b)"
| "strict_eq (JStr a) (JStr b) = (a = b)"
| "strict_eq a b = False"

definition digit_char :: "nat \<Rightarrow> char" where
  "digit_char d = ''0123456789'' ! d"

function dec_nat :: "nat \<Rightarrow> string" where
  "dec_nat n = (if n < 10 then [digit_char n] else dec_nat (n div 10) @ [digit_char (n mod 10)])"
  by pat_completeness auto
termination
  by (relation "measure (\<lambda>n. n)") auto

definition dec_int :: "int \<Rightarrow> string" where
  "dec_int i = (if i < 0 then CHR ''-'' # dec_nat (nat (- i)) else dec_nat (nat i))"

fun join_comma :: "string list \<Rightarrow> string" where
  "join_comma [] = []"
| "join_comma [x] = x"
| "join_comma (x # y # ys) = x @ '','' @ join_comma (y # ys)"

text \<open>What a template literal \<^verbatim>\<open>`${v}`\<close> inserts.\<close>

fun js_to_string :: "jsval \<Rightarrow> string" where
  "js_to_string JUndefined = ''undefined''"
| "js_to_string JNull = ''null''"
| "js_to_string (JBool b) = (if b then ''true'' else ''false'')"
| "js_to_string (JNum n) = dec_int n"
| "js_to_string (JStr s) = s"
| "js_to_string (JArr xs) =
     join_comma (map (\<lambda>x. if x = JUndefined \<or> x = JNull then [] else js_to_string x) xs)"
| "js_to_string (JObj kvs) = ''[object Object]''"

text \<open>\<^verbatim>\<open>s.slice(a, b)\<close>; \<^verbatim>\<open>s.slice(a)\<close> is \<open>js_slice_from\<close>.\<close>

definition js_slice :: "string \<Rightarrow> int \<Rightarrow> int \<Rightarrow> string" where
  "js_slice s a b =
     (let n = int (length s);
          from = (if a < 0 then max (n + a) 0 else min a n);
          to = (if b < 0 then max (n + b) 0 else min b n)
      in take (nat (to - from)) (drop (nat from) s))"

definition js_slice_from :: "string \<Rightarrow> int \<Rightarrow> string" where
  "js_slice_from s a = js_slice s a (int (length s))"

text \<open>
  \<^verbatim>\<open>s.split(sep)\<close> for a separator that is not empty: \<open>acc\<close> is the piece being
  read.
\<close>

function js_split_aux :: "string \<Rightarrow> string \<Rightarrow> string \<Rightarrow> string list" where
  "js_split_aux sep acc [] = [acc]"
| "js_split_aux sep acc (c # cs) =
     (if sep \<noteq> [] \<and> prefix sep (c # cs)
      then acc # js_split_aux sep [] (drop (length sep) (c # cs))
      else js_split_aux sep (acc @ [c]) cs)"
  by pat_completeness auto
termination
  by (relation "measure (\<lambda>(sep, acc, s). length s)") auto

definition js_split :: "string \<Rightarrow> string \<Rightarrow> string list" where
  "js_split sep s = js_split_aux sep [] s"

text \<open>\<^verbatim>\<open>xs[i]\<close> on an array of strings: \<open>None\<close> is \<^verbatim>\<open>undefined\<close>.\<close>

definition item_at :: "'a list \<Rightarrow> nat \<Rightarrow> 'a option" where
  "item_at xs i = (if i < length xs then Some (xs ! i) else None)"

definition js_find :: "(jsval \<Rightarrow> bool) \<Rightarrow> jsval list \<Rightarrow> jsval" where
  "js_find p xs = (case find p xs of None \<Rightarrow> JUndefined | Some x \<Rightarrow> x)"

definition starts_with :: "string \<Rightarrow> string \<Rightarrow> bool" where
  "starts_with s p = prefix p s"

definition msgToRaw :: "string \<Rightarrow> string" where
  \<open>msgToRaw msg = ''["'' @ msg @ ''"]''\<close>

section \<open>The constructor and \<^verbatim>\<open>getEntry\<close>\<close>

text \<open>
  A bot is its entry of the \<^verbatim>\<open>auth\<close> array and the connection handle
  \<^verbatim>\<open>bot.ws\<close>, \<open>None\<close> while the entry's \<^verbatim>\<open>ws\<close> is falsy.  A socket records
  whether \<^verbatim>\<open>close()\<close> was called, whether \<^verbatim>\<open>L_IDLE\<close> listens on it, and the frames
  sent on it.
\<close>

record websocket =
  url :: string
  closed :: bool
  idle_listener :: bool
  frames :: "string list"

record bot =
  entry :: jsval
  ws :: "websocket option"

record psbots =
  bots :: "bot list"
  aborted :: bool

definition bad_auth_entry :: "jsval \<Rightarrow> bool" where
  "bad_auth_entry x =
     (\<not> js_truthy x
      \<or> \<not> js_truthy (case js_get x ''name'' of Inr v \<Rightarrow> v | Inl e \<Rightarrow> JUndefined)
      \<or> \<not> js_truthy (case js_get x ''pass'' of Inr v \<Rightarrow> v | Inl e \<Rightarrow> JUndefined)
      \<or> js_truthy (case js_get x ''ws'' of Inr v \<Rightarrow> v | Inl e \<Rightarrow> JUndefined))"

definition constructor :: "jsval \<Rightarrow> error + psbots" where
  "constructor auth =
     (case auth of
        JArr xs \<Rightarrow>
          if list_ex bad_auth_entry xs then Inl (Err ''Invalid authentication data.'')
          else Inr \<lparr>bots = map (\<lambda>x. \<lparr>entry = x, ws = None\<rparr>) xs, aborted = False\<rparr>
      | _ \<Rightarrow> Inl (Err ''Invalid authentication data.''))"

text \<open>
  The words of the specification for one entry: \<open>carries x k\<close> says that \<open>x\<close> is an
  object whose property \<open>k\<close> is truthy; \<open>elements\<close> are the entries of an array.
\<close>

definition carries :: "jsval \<Rightarrow> string \<Rightarrow> bool" where
  "carries x k =
     (case x of
        JObj kvs \<Rightarrow> (case map_of kvs k of Some v \<Rightarrow> js_truthy v | None \<Rightarrow> False)
      | _ \<Rightarrow> False)"

fun elements :: "jsval \<Rightarrow> jsval list" where
  "elements (JArr xs) = xs"
| "elements v = []"

text \<open>
  The numbers of \<^verbatim>\<open>getEntry\<close> are IEEE 754 doubles.  A finite double is modelled by
  its value, a real; \<open>round_double\<close> rounds a real (of magnitude below \<open>2 ^ 1024\<close>) to
  the nearest double, a tie to the one with the even significand, as the arithmetic of
  the language does: \<open>ulp x\<close> is the distance between the doubles around \<open>x\<close>, with
  \<open>exponent x\<close> the binary exponent of \<open>x\<close> (not below \<open>- 1022\<close>, where the
  subnormal numbers begin), and \<open>rne\<close> rounds to the nearest integer, a tie to the even
  one.  \<open>is_double x\<close> says that \<open>x\<close> is the value of a double, and \<open>fmul\<close> is the
  product \<^verbatim>\<open>a * b\<close> of two doubles.
\<close>

definition two_pow :: "int \<Rightarrow> real" where
  "two_pow i = (if 0 \<le> i then 2 ^ nat i else 1 / 2 ^ nat (- i))"

function expo_up :: "real \<Rightarrow> nat \<Rightarrow> nat" where
  "expo_up x k = (if 1023 \<le> k \<or> x < 2 ^ Suc k then k else expo_up x (Suc k))"
  by pat_completeness auto
termination
  by (relation "measure (\<lambda>(x, k). 1023 - k)") auto

function expo_down :: "real \<Rightarrow> nat \<Rightarrow> nat" where
  "expo_down x k = (if 1022 \<le> k \<or> 1 \<le> x * 2 ^ k then k else expo_down x (Suc k))"
  by pat_completeness auto
termination
  by (relation "measure (\<lambda>(x, k). 1022 - k)") auto

definition exponent :: "real \<Rightarrow> int" where
  "exponent x = (if 1 \<le> x then int (expo_up x 0) else - int (expo_down x 1))"

definition ulp :: "real \<Rightarrow> real" where
  "ulp x = two_pow (exponent x - 52)"

definition rne :: "real \<Rightarrow> int" where
  "rne y =
     (let f = \<lfloor>y\<rfloor>; d = y - of_int f
      in if d < 1 / 2 then f else if 1 / 2 < d then f + 1 else if even f then f else f + 1)"

definition round_double :: "real \<Rightarrow> real" where
  "round_double x =
     (if x < 0 then - (of_int (rne (- x / ulp (- x))) * ulp (- x))
      else of_int (rne (x / ulp x)) * ulp x)"

definition is_double :: "real \<Rightarrow> bool" where
  "is_double x = (round_double x = x)"

definition fmul :: "real \<Rightarrow> real \<Rightarrow> real" where
  "fmul a b = round_double (a * b)"

definition chars :: string where
  "chars = ''abcdefghijklmnopqrstuvwxyz0123456789_''"

text \<open>\<^verbatim>\<open>chars[i]\<close> appended to a string: out of range it is \<^verbatim>\<open>undefined\<close>.\<close>

definition char_at :: "string \<Rightarrow> int \<Rightarrow> string" where
  "char_at s i = (if 0 \<le> i \<and> i < int (length s) then [s ! nat i] else ''undefined'')"

text \<open>
  \<open>rnd\<close> is the sequence of results of \<^verbatim>\<open>Math.random()\<close>, read from index \<open>k\<close>
  on; the loop returns the string and the index of the next unread result.
\<close>

function r1_loop :: "(nat \<Rightarrow> real) \<Rightarrow> nat \<Rightarrow> string \<Rightarrow> string \<times> nat" where
  "r1_loop rnd k r1 =
     (if length r1 < 8
      then r1_loop rnd (Suc k) (r1 @ char_at chars \<lfloor>fmul (rnd k) (real (length chars))\<rfloor>)
      else (r1, k))"
  by pat_completeness auto
termination
  by (relation "measure (\<lambda>(rnd, k, r1). 8 - length r1)") (auto simp: char_at_def)

definition getEntry :: "(nat \<Rightarrow> real) \<Rightarrow> nat \<Rightarrow> string \<times> nat" where
  "getEntry rnd k =
     (let (r1, k') = r1_loop rnd k [];
          r2 = \<lfloor>fmul (rnd k') 900\<rfloor> + 100
      in (''wss://sim3.psim.us/showdown/'' @ r1 @ ''/'' @ dec_int r2 @ ''/websocket'', Suc k'))"

section \<open>\<^verbatim>\<open>awaitws\<close>\<close>

text \<open>
  One call of \<^verbatim>\<open>awaitws(ws, timer, predicate)\<close>: the promise (\<open>outcome\<close>, settled by
  the first \<^verbatim>\<open>res\<close> or \<^verbatim>\<open>rej\<close> only) and the call's own AbortController, whose
  signal holds the message listener.  A predicate reads and may change a state of the
  caller (\<^verbatim>\<open>battle\<close>); it returns a value or throws.  The source has no
  \<^verbatim>\<open>try\<close> around the call, so an exception thrown inside the listener settles nothing:
  the model leaves the promise as it was, and what the uncaught exception does to the
  process is outside it.
\<close>

datatype pres = Returned jsval | Threw error

datatype settled = Resolved string | Rejected rejection

record waiter =
  outcome :: "settled option"
  ctrl_aborted :: bool

datatype wevent = Message string | TimerFired

definition awaitws :: waiter where
  "awaitws = \<lparr>outcome = None, ctrl_aborted = False\<rparr>"

definition res :: "string \<Rightarrow> waiter \<Rightarrow> waiter" where
  "res v w = (if outcome w = None then w\<lparr>outcome := Some (Resolved v)\<rparr> else w)"

definition rej :: "rejection \<Rightarrow> waiter \<Rightarrow> waiter" where
  "rej r w = (if outcome w = None then w\<lparr>outcome := Some (Rejected r)\<rparr> else w)"

definition ctrl_abort :: "waiter \<Rightarrow> waiter" where
  "ctrl_abort w = w\<lparr>ctrl_aborted := True\<rparr>"

definition awaitws_listener ::
  "('st \<Rightarrow> string \<Rightarrow> pres \<times> 'st) \<Rightarrow> string \<Rightarrow> waiter \<times> 'st \<Rightarrow> waiter \<times> 'st" where
  "awaitws_listener predicate msgraw x =
     (case x of (w, st) \<Rightarrow>
        if ctrl_aborted w then (w, st)
        else (case predicate st msgraw of
                (Threw e, st') \<Rightarrow> (w, st')
              | (Returned reason, st') \<Rightarrow>
                  if reason = JBool True then (ctrl_abort (res msgraw w), st')
                  else (case reason of
                          JStr r \<Rightarrow> (ctrl_abort (rej (Reason r msgraw) w), st')
                        | _ \<Rightarrow> (w, st'))))"

definition awaitws_timeout :: "waiter \<times> 'st \<Rightarrow> waiter \<times> 'st" where
  "awaitws_timeout x = (case x of (w, st) \<Rightarrow> (ctrl_abort (rej TimedOut w), st))"

fun awaitws_event ::
  "('st \<Rightarrow> string \<Rightarrow> pres \<times> 'st) \<Rightarrow> waiter \<times> 'st \<Rightarrow> wevent \<Rightarrow> waiter \<times> 'st" where
  "awaitws_event predicate x (Message msgraw) = awaitws_listener predicate msgraw x"
| "awaitws_event predicate x TimerFired = awaitws_timeout x"

definition awaitws_run ::
  "('st \<Rightarrow> string \<Rightarrow> pres \<times> 'st) \<Rightarrow> 'st \<Rightarrow> wevent list \<Rightarrow> waiter \<times> 'st" where
  "awaitws_run predicate st evs = foldl (awaitws_event predicate) (awaitws, st) evs"

text \<open>What one message does to a call that is still listening.\<close>

definition await_on ::
  "('st \<Rightarrow> string \<Rightarrow> pres \<times> 'st) \<Rightarrow> string \<Rightarrow> 'st \<Rightarrow> settled option \<times> 'st" where
  "await_on predicate msgraw st =
     (case awaitws_listener predicate msgraw (awaitws, st) of (w, st') \<Rightarrow> (outcome w, st'))"

section \<open>The two regular expressions\<close>

text \<open>
  The constructs the two patterns of \<^verbatim>\<open>battle\<close> use: \<^verbatim>\<open>^\<close>, a literal, \<^verbatim>\<open>.+?\<close>,
  sequence, \<^verbatim>\<open>|\<close> and the capture group.  \<open>rx_run r pos s\<close> lists, in the order the
  matcher tries them, the ways \<open>r\<close> matches at position \<open>pos\<close> where the input still
  to read is \<open>s\<close>: the group's capture and the input left.
\<close>

datatype rx =
    Bol
  | Lit string
  | DotPlusLazy
  | Cat rx rx
  | Alt rx rx
  | Grp rx

definition line_terminator :: "char \<Rightarrow> bool" where
  "line_terminator c = (c = CHR 0x0A \<or> c = CHR 0x0D)"

fun dot_plus :: "string \<Rightarrow> (string option \<times> string) list" where
  "dot_plus [] = []"
| "dot_plus (c # cs) = (if line_terminator c then [] else (None, cs) # dot_plus cs)"

fun rx_run :: "rx \<Rightarrow> nat \<Rightarrow> string \<Rightarrow> (string option \<times> string) list" where
  "rx_run Bol pos s = (if pos = 0 then [(None, s)] else [])"
| "rx_run (Lit l) pos s = (if prefix l s then [(None, drop (length l) s)] else [])"
| "rx_run DotPlusLazy pos s = dot_plus s"
| "rx_run (Cat a b) pos s =
     concat (map (\<lambda>(c, rest).
                    map (\<lambda>(c', rest'). (case c' of None \<Rightarrow> c | Some x \<Rightarrow> Some x, rest'))
                        (rx_run b (pos + (length s - length rest)) rest))
                 (rx_run a pos s))"
| "rx_run (Alt a b) pos s = rx_run a pos s @ rx_run b pos s"
| "rx_run (Grp a) pos s =
     map (\<lambda>(c, rest). (Some (take (length s - length rest) s), rest)) (rx_run a pos s)"

text \<open>
  \<^verbatim>\<open>r.exec(s)\<close> without flags: the first match at the leftmost position that has one;
  the result is capture 1 of the match (\<open>None\<close> inside: the group took no part).
\<close>

fun rx_exec_from :: "rx \<Rightarrow> nat \<Rightarrow> string \<Rightarrow> string option option" where
  "rx_exec_from r pos [] =
     (case rx_run r pos [] of [] \<Rightarrow> None | (c, rest) # others \<Rightarrow> Some c)"
| "rx_exec_from r pos (x # xs) =
     (case rx_run r pos (x # xs) of
        [] \<Rightarrow> rx_exec_from r (Suc pos) xs
      | (c, rest) # others \<Rightarrow> Some c)"

definition rx_exec :: "rx \<Rightarrow> string \<Rightarrow> string option option" where
  "rx_exec r s = rx_exec_from r 0 s"

definition rx_test :: "rx \<Rightarrow> string \<Rightarrow> bool" where
  "rx_test r s = (rx_exec r s \<noteq> None)"

text \<open>
  \<^verbatim>\<open>new RegExp(`^|popup||html|<p>Your replay has been uploaded!.+?${room.slice(1)}`)\<close>:
  five alternatives, the third one empty.  The room identifier is read as a literal, which
  is what the pattern does for an identifier of letters, digits and hyphens.
\<close>

definition replay_rx :: "string \<Rightarrow> rx" where
  "replay_rx room1 =
     Alt Bol
      (Alt (Lit ''popup'')
        (Alt (Lit [])
          (Alt (Lit ''html'')
            (Cat (Lit ''<p>Your replay has been uploaded!'') (Cat DotPlusLazy (Lit room1))))))"

text \<open>\<^verbatim>\<open>/href="(.+?)"/\<close>\<close>

definition href_rx :: rx where
  \<open>href_rx = Cat (Lit ''href="'') (Cat (Grp DotPlusLazy) (Lit ''"''))\<close>

section \<open>\<^verbatim>\<open>battle\<close>\<close>

text \<open>
  The argument after the input checks: the fields the checks have read.  The field
  \<open>confirmed\<close> is the one the choreography writes.
\<close>

record side =
  team :: string
  usernames :: "jsval list"
  confirmed :: jsval

record battle =
  message :: string
  chalcode :: string
  side1 :: side
  side2 :: side

text \<open>
  The checks on one side, in the order of the source; \<open>Inr None\<close> when a check fires,
  \<open>Inl\<close> when reading a property throws.
\<close>

definition check_side :: "jsval \<Rightarrow> error + side option" where
  "check_side s =
     (if js_typeof s \<noteq> ''object'' then Inr None
      else case js_get s ''team'' of
             Inl e \<Rightarrow> Inl e
           | Inr t \<Rightarrow>
               if js_typeof t \<noteq> ''string'' then Inr None
               else case js_get s ''usernames'' of
                      Inl e \<Rightarrow> Inl e
                    | Inr u \<Rightarrow>
                        if \<not> is_array u then Inr None
                        else case js_get s ''confirmed'' of
                               Inl e \<Rightarrow> Inl e
                             | Inr c \<Rightarrow>
                                 if js_truthy c then Inr None
                                 else Inr (Some \<lparr>team = js_to_string t,
                                                 usernames = (case u of JArr us \<Rightarrow> us | _ \<Rightarrow> []),
                                                 confirmed = c\<rparr>))"

definition check_battle :: "jsval \<Rightarrow> error + battle option" where
  "check_battle b =
     (if js_typeof b \<noteq> ''object'' then Inr None
      else case js_get b ''message'' of
             Inl e \<Rightarrow> Inl e
           | Inr m \<Rightarrow>
               if js_typeof m \<noteq> ''string'' then Inr None
               else case js_get b ''chalcode'' of
                      Inl e \<Rightarrow> Inl e
                    | Inr cc \<Rightarrow>
                        if js_typeof cc \<noteq> ''string'' then Inr None
                        else case js_get b ''side1'' of
                               Inl e \<Rightarrow> Inl e
                             | Inr s1 \<Rightarrow>
                                 (case check_side s1 of
                                    Inl e \<Rightarrow> Inl e
                                  | Inr None \<Rightarrow> Inr None
                                  | Inr (Some sd1) \<Rightarrow>
                                      (case js_get b ''side2'' of
                                         Inl e \<Rightarrow> Inl e
                                       | Inr s2 \<Rightarrow>
                                           (case check_side s2 of
                                              Inl e \<Rightarrow> Inl e
                                            | Inr None \<Rightarrow> Inr None
                                            | Inr (Some sd2) \<Rightarrow>
                                                Inr (Some \<lparr>message = js_to_string m,
                                                           chalcode = js_to_string cc,
                                                           side1 = sd1, side2 = sd2\<rparr>)))))"

text \<open>
  One run of the choreography.  \<open>stage\<close> says which \<^verbatim>\<open>awaitws\<close> call is listening
  (\<open>Idle\<close>: none); \<open>sent\<close> is every frame sent so far, on connection \<open>A\<close>
  (\<^verbatim>\<open>bots[0].ws\<close>) or \<open>B\<close> (\<^verbatim>\<open>bots[1].ws\<close>); \<open>room\<close> is the promise \<^verbatim>\<open>battle\<close>
  returns, fulfilled with the \<^verbatim>\<open>room\<close> URL, and \<open>replay\<close> the promise handed back
  with it, \<open>None\<close> before it exists.
\<close>

datatype conn = A | B

datatype 'a future = Pending | Fulfilled 'a | Failed rejection

datatype stage =
    AwaitPlayers
  | AwaitChallenge
  | AwaitInit
  | AwaitWin string
  | AwaitReplay string
  | Idle

record run =
  spec :: battle
  stage :: stage
  sent :: "(conn \<times> string) list"
  room :: "string future"
  replay :: "string future option"

datatype bevent = Msg conn string | Timeout nat

definition send :: "conn \<Rightarrow> string \<Rightarrow> run \<Rightarrow> run" where
  "send c m r = r\<lparr>sent := sent r @ [(c, m)]\<rparr>"

definition userdetails :: "jsval \<Rightarrow> conn \<times> string" where
  "userdetails user = (A, msgToRaw (''|/cmd userdetails '' @ js_to_string user))"

text \<open>
  \<^verbatim>\<open>battle(battle)\<close> up to the first \<^verbatim>\<open>awaitws\<close>; \<open>wire\<close> is what had been sent
  before the call.
\<close>

definition battle_call :: "jsval \<Rightarrow> (conn \<times> string) list \<Rightarrow> error + run" where
  "battle_call b wire =
     (case check_battle b of
        Inl e \<Rightarrow> Inl e
      | Inr None \<Rightarrow> Inl (Err ''Invalid data in argument.'')
      | Inr (Some sp) \<Rightarrow>
          Inr \<lparr>spec = sp, stage = AwaitPlayers,
               sent = wire @ map userdetails (usernames (side1 sp))
                           @ map userdetails (usernames (side2 sp)),
               room = Pending, replay = None\<rparr>)"

definition wire_after :: "jsval \<Rightarrow> (conn \<times> string) list \<Rightarrow> (conn \<times> string) list" where
  "wire_after b wire = (case battle_call b wire of Inl e \<Rightarrow> wire | Inr r \<Rightarrow> sent r)"

text \<open>
  The predicate of the first wait.  \<open>parse\<close> is \<^verbatim>\<open>JSON.parse\<close>, \<open>None\<close> where it
  throws.
\<close>

definition pred_players :: "(string \<Rightarrow> jsval option) \<Rightarrow> battle \<Rightarrow> string \<Rightarrow> pres \<times> battle" where
  "pred_players parse b msgraw =
     (let msg = js_slice msgraw 3 (- 2);
          data = js_split ''|'' msg
      in if item_at data 1 \<noteq> Some ''queryresponse'' \<or> item_at data 2 \<noteq> Some ''userdetails''
         then (Returned JUndefined, b)
         else case item_at data 3 of
                None \<Rightarrow> (Threw TypeError, b)
              | Some d3 \<Rightarrow>
                 (case parse (filter (\<lambda>c. c \<noteq> backslash) d3) of
                    None \<Rightarrow> (Threw SyntaxError, b)
                  | Some details \<Rightarrow>
                     if \<not> js_truthy details
                     then (Returned (JStr ''Unregistered username in queue.''), b)
                     else (case js_get details ''name'' of
                             Inl e \<Rightarrow> (Threw e, b)
                           | Inr name \<Rightarrow>
                              (let found1 = js_find (\<lambda>x. strict_eq x name) (usernames (side1 b));
                                   found2 = js_find (\<lambda>x. strict_eq x name) (usernames (side2 b));
                                   foundUser = (if js_truthy found1 then found1 else found2)
                               in if \<not> js_truthy foundUser then (Returned JUndefined, b)
                                  else (case js_get details ''rooms'' of
                                          Inl e \<Rightarrow> (Threw e, b)
                                        | Inr rooms \<Rightarrow>
                                           if \<not> js_truthy rooms
                                           then (Returned (JStr (''User is offline: '' @ js_to_string name)), b)
                                           else (let b' = (if js_truthy found1
                                                           then b\<lparr>side1 := (side1 b)\<lparr>confirmed := foundUser\<rparr>\<rparr>
                                                           else b\<lparr>side2 := (side2 b)\<lparr>confirmed := foundUser\<rparr>\<rparr>)
                                                 in if \<not> js_truthy (confirmed (side1 b'))
                                                       \<or> \<not> js_truthy (confirmed (side2 b'))
                                                    then (Returned JUndefined, b')
                                                    else (Returned (JBool True), b')))))))"

text \<open>The predicate of the second wait; \<open>nameA\<close>, \<open>nameB\<close> are the bots' names.\<close>

definition pred_challenge :: "jsval \<Rightarrow> jsval \<Rightarrow> 'st \<Rightarrow> string \<Rightarrow> pres \<times> 'st" where
  "pred_challenge nameA nameB st msgraw =
     (let msg = js_slice msgraw 3 (- 2);
          data = js_split ''|'' msg
      in if item_at data 1 \<noteq> Some ''pm'' then (Returned JUndefined, st)
         else case item_at data 2 of
                None \<Rightarrow> (Threw TypeError, st)
              | Some d2 \<Rightarrow>
                 if \<not> strict_eq (JStr (js_slice_from d2 1)) nameA then (Returned JUndefined, st)
                 else (case item_at data 3 of
                         None \<Rightarrow> (Threw TypeError, st)
                       | Some d3 \<Rightarrow>
                          if \<not> strict_eq (JStr (js_slice_from d3 1)) nameB
                          then (Returned JUndefined, st)
                          else (case item_at data 4 of
                                  None \<Rightarrow> (Threw TypeError, st)
                                | Some d4 \<Rightarrow>
                                   if \<not> starts_with d4 ''/challenge ''
                                   then (Returned JUndefined, st)
                                   else (Returned (JBool True), st))))"

text \<open>The predicate of the third wait, and the room its continuation reads again.\<close>

definition pred_init :: "'st \<Rightarrow> string \<Rightarrow> pres \<times> 'st" where
  "pred_init st msgraw =
     (let msg = js_slice msgraw 3 (- 2);
          parts = js_split bsn msg
      in case item_at parts 1 of
           None \<Rightarrow> (Returned JUndefined, st)
         | Some data' \<Rightarrow>
            if data' = [] then (Returned JUndefined, st)
            else (let data = js_split ''|'' data'
                  in if item_at data 1 \<noteq> Some ''init'' \<or> item_at data 2 \<noteq> Some ''battle''
                     then (Returned JUndefined, st)
                     else (Returned (JBool True), st)))"

definition room_of :: "string \<Rightarrow> string" where
  "room_of msgraw =
     (case item_at (js_split bsn (js_slice msgraw 3 (- 2))) 0 of
        None \<Rightarrow> [] | Some room0 \<Rightarrow> js_slice_from room0 1)"

text \<open>The predicates of the two waits of the replay promise.\<close>

definition pred_win :: "'st \<Rightarrow> string \<Rightarrow> pres \<times> 'st" where
  "pred_win st msgraw =
     (let msg = js_slice msgraw 3 (- 2);
          data = item_at (js_split ''|'' (last (js_split bsn msg))) 1
      in if data \<noteq> Some ''win'' then (Returned JUndefined, st)
         else (Returned (JBool True), st))"

definition pred_replay :: "string \<Rightarrow> 'st \<Rightarrow> string \<Rightarrow> pres \<times> 'st" where
  "pred_replay room1 st msgraw =
     (let msg = js_slice msgraw 3 (- 2)
      in if \<not> rx_test (replay_rx room1) msg then (Returned JUndefined, st)
         else (Returned (JBool True), st))"

definition href_of :: "string \<Rightarrow> string" where
  "href_of msgraw =
     (case rx_exec href_rx msgraw of
        Some (Some link) \<Rightarrow> link
      | _ \<Rightarrow> ''this should not have happened'')"

text \<open>The continuations (\<^verbatim>\<open>.then\<close>), each run when the wait before it resolves.\<close>

definition then_players :: "jsval \<Rightarrow> run \<Rightarrow> run" where
  "then_players nameB r =
     (send A (msgToRaw (''|/challenge '' @ js_to_string nameB @ '', '' @ chalcode (spec r)))
       (send B (msgToRaw (''|/utm '' @ team (side2 (spec r))))
         (send A (msgToRaw (''|/utm '' @ team (side1 (spec r)))) r)))
     \<lparr>stage := AwaitChallenge\<rparr>"

definition then_challenge :: "jsval \<Rightarrow> run \<Rightarrow> run" where
  "then_challenge nameA r =
     (send B (msgToRaw (''|/accept '' @ js_to_string nameA)) r)\<lparr>stage := AwaitInit\<rparr>"

definition base_url :: string where
  "base_url = ''https://play.pokemonshowdown.com/''"

definition then_init :: "string \<Rightarrow> run \<Rightarrow> run" where
  "then_init msgraw r =
     (let room1 = room_of msgraw;
          msgraw0 = msgToRaw (room1 @ ''|'' @ message (spec r));
          msgraw1 = msgToRaw (room1 @ ''|/timer on'');
          msgraw2 = msgToRaw (room1 @ ''|/leavebattle'');
          msgraw3 = msgToRaw (room1 @ ''|/addplayer '' @ js_to_string (confirmed (side1 (spec r))) @ '', p1'');
          msgraw4 = msgToRaw (room1 @ ''|/addplayer '' @ js_to_string (confirmed (side2 (spec r))) @ '', p2'');
          msgraw5 = msgToRaw (''|/noreply /leave '' @ room1)
      in (send B msgraw5 (send B msgraw4 (send A msgraw3 (send B msgraw2 (send A msgraw2
           (send B msgraw1 (send A msgraw1 (send A msgraw0 r))))))))
         \<lparr>room := Fulfilled (base_url @ room1), replay := Some Pending, stage := AwaitWin room1\<rparr>)"

definition then_win :: "string \<Rightarrow> run \<Rightarrow> run" where
  "then_win room1 r = (send A (msgToRaw (room1 @ ''|/savereplay'')) r)\<lparr>stage := AwaitReplay room1\<rparr>"

definition then_replay :: "string \<Rightarrow> string \<Rightarrow> run \<Rightarrow> run" where
  "then_replay room1 msgraw r =
     (send A (msgToRaw (''|/noreply /leave '' @ room1)) r)
     \<lparr>replay := Some (Fulfilled (href_of msgraw)), stage := Idle\<rparr>"

text \<open>A rejected wait rejects the promise it belongs to; nothing listens afterwards.\<close>

definition reject_run :: "rejection \<Rightarrow> run \<Rightarrow> run" where
  "reject_run e r =
     (case stage r of
        Idle \<Rightarrow> r
      | AwaitWin room1 \<Rightarrow> r\<lparr>replay := Some (Failed e), stage := Idle\<rparr>
      | AwaitReplay room1 \<Rightarrow> r\<lparr>replay := Some (Failed e), stage := Idle\<rparr>
      | _ \<Rightarrow> r\<lparr>room := Failed e, stage := Idle\<rparr>)"

text \<open>The connection a stage listens on and the number of its wait (its timer).\<close>

fun listens_on :: "stage \<Rightarrow> conn option" where
  "listens_on AwaitPlayers = Some A"
| "listens_on AwaitChallenge = Some B"
| "listens_on AwaitInit = Some A"
| "listens_on (AwaitWin room1) = Some A"
| "listens_on (AwaitReplay room1) = Some A"
| "listens_on Idle = None"

fun wait_no :: "stage \<Rightarrow> nat" where
  "wait_no AwaitPlayers = 1"
| "wait_no AwaitChallenge = 2"
| "wait_no AwaitInit = 3"
| "wait_no (AwaitWin room1) = 4"
| "wait_no (AwaitReplay room1) = 5"
| "wait_no Idle = 0"

text \<open>
  One event of a run: a frame arriving on a connection, or the timer of the wait with
  the given number.  A frame is seen by the wait that is listening on that connection;
  a timer whose wait has settled changes nothing.
\<close>

definition on_frame :: "(string \<Rightarrow> jsval option) \<Rightarrow> jsval \<Rightarrow> jsval \<Rightarrow> string \<Rightarrow> run \<Rightarrow> run" where
  "on_frame parse nameA nameB msgraw r =
     (case stage r of
        AwaitPlayers \<Rightarrow>
          (case await_on (pred_players parse) msgraw (spec r) of
             (None, sp) \<Rightarrow> r\<lparr>spec := sp\<rparr>
           | (Some (Resolved m), sp) \<Rightarrow> then_players nameB (r\<lparr>spec := sp\<rparr>)
           | (Some (Rejected e), sp) \<Rightarrow> reject_run e (r\<lparr>spec := sp\<rparr>))
      | AwaitChallenge \<Rightarrow>
          (case await_on (pred_challenge nameA nameB) msgraw () of
             (None, u) \<Rightarrow> r
           | (Some (Resolved m), u) \<Rightarrow> then_challenge nameA r
           | (Some (Rejected e), u) \<Rightarrow> reject_run e r)
      | AwaitInit \<Rightarrow>
          (case await_on pred_init msgraw () of
             (None, u) \<Rightarrow> r
           | (Some (Resolved m), u) \<Rightarrow> then_init m r
           | (Some (Rejected e), u) \<Rightarrow> reject_run e r)
      | AwaitWin room1 \<Rightarrow>
          (case await_on pred_win msgraw () of
             (None, u) \<Rightarrow> r
           | (Some (Resolved m), u) \<Rightarrow> then_win room1 r
           | (Some (Rejected e), u) \<Rightarrow> reject_run e r)
      | AwaitReplay room1 \<Rightarrow>
          (case await_on (pred_replay room1) msgraw () of
             (None, u) \<Rightarrow> r
           | (Some (Resolved m), u) \<Rightarrow> then_replay room1 m r
           | (Some (Rejected e), u) \<Rightarrow> reject_run e r)
      | Idle \<Rightarrow> r)"

fun battle_step :: "(string \<Rightarrow> jsval option) \<Rightarrow> jsval \<Rightarrow> jsval \<Rightarrow> run \<Rightarrow> bevent \<Rightarrow> run" where
  "battle_step parse nameA nameB r (Msg c msgraw) =
     (if listens_on (stage r) = Some c then on_frame parse nameA nameB msgraw r else r)"
| "battle_step parse nameA nameB r (Timeout k) =
     (if wait_no (stage r) = k
      then (case fst (awaitws_timeout (awaitws, ())) of w \<Rightarrow>
              (case outcome w of Some (Rejected e) \<Rightarrow> reject_run e r | _ \<Rightarrow> r))
      else r)"

definition battle_run ::
  "(string \<Rightarrow> jsval option) \<Rightarrow> jsval \<Rightarrow> jsval \<Rightarrow> run \<Rightarrow> bevent list \<Rightarrow> run" where
  "battle_run parse nameA nameB r evs = foldl (battle_step parse nameA nameB) r evs"

text \<open>
  Reading aids for the statements about \<^verbatim>\<open>battle\<close>.  \<open>side_rejected\<close> is what the
  input checks refuse in one side object; \<open>userdetails_of\<close> is the account report a
  frame carries when it is a userdetails reply the first predicate decodes;
  \<open>is_challenge\<close> recognises the challenge command; \<open>kept\<close> relates the argument before
  and after some events; \<open>started\<close> are the stages after the room URL was handed out.
\<close>

definition side_rejected :: "(string \<times> jsval) list \<Rightarrow> bool" where
  "side_rejected kvs =
     ((case map_of kvs ''team'' of Some (JStr t) \<Rightarrow> False | _ \<Rightarrow> True)
      \<or> (case map_of kvs ''usernames'' of Some (JArr us) \<Rightarrow> False | _ \<Rightarrow> True)
      \<or> (case map_of kvs ''confirmed'' of Some c \<Rightarrow> js_truthy c | None \<Rightarrow> False))"

definition userdetails_of :: "(string \<Rightarrow> jsval option) \<Rightarrow> string \<Rightarrow> jsval option" where
  "userdetails_of parse msgraw =
     (let data = js_split ''|'' (js_slice msgraw 3 (- 2))
      in if item_at data 1 = Some ''queryresponse'' \<and> item_at data 2 = Some ''userdetails''
         then (case item_at data 3 of
                 None \<Rightarrow> None
               | Some d3 \<Rightarrow> parse (filter (\<lambda>c. c \<noteq> backslash) d3))
         else None)"

definition is_challenge :: "string \<Rightarrow> bool" where
  \<open>is_challenge frame = starts_with frame ''["|/challenge ''\<close>

definition kept :: "battle \<Rightarrow> battle \<Rightarrow> bool" where
  "kept b b' \<longleftrightarrow>
     usernames (side1 b') = usernames (side1 b) \<and> usernames (side2 b') = usernames (side2 b)
     \<and> (confirmed (side1 b') = confirmed (side1 b) \<or> confirmed (side1 b') \<in> set (usernames (side1 b)))
     \<and> (confirmed (side2 b') = confirmed (side2 b) \<or> confirmed (side2 b') \<in> set (usernames (side2 b)))"

definition started :: "stage \<Rightarrow> bool" where
  "started s = (case s of AwaitPlayers \<Rightarrow> False | AwaitChallenge \<Rightarrow> False | AwaitInit \<Rightarrow> False
                | _ \<Rightarrow> True)"

section \<open>\<^verbatim>\<open>connect\<close> and \<^verbatim>\<open>shutdown\<close>\<close>

definition shutdown :: "psbots \<Rightarrow> psbots" where
  "shutdown p =
     (if list_ex (\<lambda>x. ws x = None) (bots p) \<or> aborted p then p
      else p\<lparr>bots := map (\<lambda>x. x\<lparr>ws := map_option (\<lambda>w. w\<lparr>closed := True, idle_listener := False\<rparr>) (ws x)\<rparr>)
                         (bots p),
             aborted := True\<rparr>)"

text \<open>
  The promise chain of one bot inside \<^verbatim>\<open>connect\<close>: its \<^verbatim>\<open>awaitws\<close> call is
  listening for the challstr, or the login request is in flight (with the challstr
  sent), or the chain has resolved, or it has rejected.
\<close>

datatype chain = AwaitChallstr | Fetching string | Connected | Broken error

fun is_fetching :: "chain \<Rightarrow> bool" where
  "is_fetching (Fetching challstr) = True"
| "is_fetching s = False"

text \<open>What \<^verbatim>\<open>fetch\<close> settles with: a network failure, or \<^verbatim>\<open>res.ok\<close> and the body.\<close>

datatype response = NetFail | Http bool string

datatype cevent =
    CMsg nat string
  | CTimeout nat
  | CHttp nat response
  | CError nat

record connecting =
  ps :: psbots
  chains :: "chain list"
  first_failure :: "error option"

fun open_all :: "(nat \<Rightarrow> real) \<Rightarrow> nat \<Rightarrow> bot list \<Rightarrow> bot list" where
  "open_all rnd k [] = []"
| "open_all rnd k (x # xs) =
     (case getEntry rnd k of
        (u, k') \<Rightarrow>
          x\<lparr>ws := Some \<lparr>url = u, closed = False, idle_listener = False, frames = []\<rparr>\<rparr>
            # open_all rnd k' xs)"

definition connect_call :: "(nat \<Rightarrow> real) \<Rightarrow> psbots \<Rightarrow> connecting" where
  "connect_call rnd p =
     \<lparr>ps = p\<lparr>bots := open_all rnd 0 (bots p)\<rparr>,
      chains = map (\<lambda>x. AwaitChallstr) (bots p),
      first_failure = None\<rparr>"

text \<open>\<^verbatim>\<open>Promise.all(connections).then(() => "=== ALL CONNECTED ===")\<close>\<close>

definition connect_result :: "connecting \<Rightarrow> (error + string) option" where
  "connect_result c =
     (case first_failure c of
        Some e \<Rightarrow> Some (Inl e)
      | None \<Rightarrow> if list_all (\<lambda>s. s = Connected) (chains c)
                then Some (Inr ''=== ALL CONNECTED ==='') else None)"

definition pred_challstr :: "'st \<Rightarrow> string \<Rightarrow> pres \<times> 'st" where
  "pred_challstr st msgraw =
     (let msg = js_slice msgraw 3 (- 2);
          data = js_split ''|'' msg
      in if item_at data 1 \<noteq> Some ''challstr'' then (Returned JUndefined, st)
         else (Returned (JBool True), st))"

text \<open>
  The check of the decoded login response; on success the value of
  \<^verbatim>\<open>res.assertion\<close>.
\<close>

definition login_check :: "jsval \<Rightarrow> jsval \<Rightarrow> error + jsval" where
  "login_check name0 r =
     (case js_get r ''actionsuccess'' of
        Inl e \<Rightarrow> Inl e
      | Inr ok \<Rightarrow>
         (case js_get r ''assertion'' of
            Inl e \<Rightarrow> Inl e
          | Inr assertion \<Rightarrow>
             if \<not> js_truthy ok then Inl (CouldNotLogin name0 assertion)
             else (case js_get r ''curuser'' of
                     Inl e \<Rightarrow> Inl e
                   | Inr curuser \<Rightarrow>
                      (case js_get curuser ''loggedin'' of
                         Inl e \<Rightarrow> Inl e
                       | Inr loggedin \<Rightarrow>
                          if \<not> js_truthy loggedin then Inl (CouldNotLogin name0 assertion)
                          else (case assertion of
                                  JStr a \<Rightarrow>
                                    if starts_with a '';;'' then Inl (CouldNotLogin name0 assertion)
                                    else Inr assertion
                                | _ \<Rightarrow> Inl TypeError)))))"

definition bot_name :: "bot \<Rightarrow> jsval" where
  "bot_name x = (case js_get (entry x) ''name'' of Inr v \<Rightarrow> v | Inl e \<Rightarrow> JUndefined)"

text \<open>
  \<^verbatim>\<open>ws.send\<close> drops the frame once \<^verbatim>\<open>close()\<close> has been called;
  \<^verbatim>\<open>addEventListener\<close> with the shared signal adds nothing once that signal has
  aborted.
\<close>

definition ws_send :: "string \<Rightarrow> websocket \<Rightarrow> websocket" where
  "ws_send m w = (if closed w then w else w\<lparr>frames := frames w @ [m]\<rparr>)"

definition logged_in :: "nat \<Rightarrow> jsval \<Rightarrow> psbots \<Rightarrow> psbots" where
  \<open>logged_in i assertion p =
     p\<lparr>bots := (bots p)[i := (bots p ! i)
         \<lparr>ws := map_option
                  (\<lambda>w. ws_send (''["|/trn '' @ js_to_string (bot_name (bots p ! i)) @ '',0,''
                                   @ js_to_string assertion @ ''"]'')
                         (w\<lparr>idle_listener := \<not> aborted p\<rparr>))
                  (ws (bots p ! i))\<rparr>]\<rparr>\<close>

text \<open>\<^verbatim>\<open>.catch((err) => { this.shutdown(); throw err; })\<close>\<close>

definition break_chain :: "nat \<Rightarrow> error \<Rightarrow> connecting \<Rightarrow> connecting" where
  "break_chain i e c =
     c\<lparr>ps := shutdown (ps c),
       chains := (chains c)[i := Broken e],
       first_failure := (case first_failure c of None \<Rightarrow> Some e | Some e' \<Rightarrow> Some e')\<rparr>"

definition on_response ::
  "(string \<Rightarrow> jsval option) \<Rightarrow> nat \<Rightarrow> response \<Rightarrow> connecting \<Rightarrow> connecting" where
  "on_response parse i resp c =
     (case resp of
        NetFail \<Rightarrow> break_chain i FetchFailed c
      | Http ok body \<Rightarrow>
          if \<not> ok then break_chain i (CouldNotConnect (bot_name (bots (ps c) ! i))) c
          else (case parse (js_slice_from body 1) of
                  None \<Rightarrow> break_chain i SyntaxError c
                | Some r \<Rightarrow>
                   (case login_check (bot_name (bots (ps c) ! i)) r of
                      Inl e \<Rightarrow> break_chain i e c
                    | Inr assertion \<Rightarrow>
                        c\<lparr>ps := logged_in i assertion (ps c),
                          chains := (chains c)[i := Connected]\<rparr>)))"

text \<open>
  The events of \<^verbatim>\<open>connect\<close>, each for the bot with the given index: a frame (a socket
  on which \<^verbatim>\<open>close()\<close> was called delivers none), the timer of its wait, the answer
  to its login request, a socket error (seen by \<^verbatim>\<open>L_ERROR\<close> while the shared signal
  holds that listener).
\<close>

definition delivers :: "psbots \<Rightarrow> nat \<Rightarrow> bool" where
  "delivers p i =
     (i < length (bots p)
      \<and> (case ws (bots p ! i) of None \<Rightarrow> False | Some w \<Rightarrow> \<not> closed w))"

fun connect_step :: "(string \<Rightarrow> jsval option) \<Rightarrow> connecting \<Rightarrow> cevent \<Rightarrow> connecting" where
  "connect_step parse c (CMsg i msgraw) =
     (if i < length (chains c) \<and> chains c ! i = AwaitChallstr \<and> delivers (ps c) i
      then (case await_on pred_challstr msgraw () of
              (None, u) \<Rightarrow> c
            | (Some (Resolved m), u) \<Rightarrow> c\<lparr>chains := (chains c)[i := Fetching (js_slice m 13 (- 2))]\<rparr>
            | (Some (Rejected e), u) \<Rightarrow> break_chain i (Awaited e) c)
      else c)"
| "connect_step parse c (CTimeout i) =
     (if i < length (chains c) \<and> chains c ! i = AwaitChallstr
      then (case outcome (fst (awaitws_timeout (awaitws, ()))) of
              Some (Rejected e) \<Rightarrow> break_chain i (Awaited e) c
            | _ \<Rightarrow> c)
      else c)"
| "connect_step parse c (CHttp i resp) =
     (if i < length (chains c) \<and> is_fetching (chains c ! i)
      then on_response parse i resp c
      else c)"
| "connect_step parse c (CError i) =
     (if i < length (chains c) \<and> \<not> aborted (ps c) then c\<lparr>ps := shutdown (ps c)\<rparr> else c)"

definition connect_run :: "(string \<Rightarrow> jsval option) \<Rightarrow> connecting \<Rightarrow> cevent list \<Rightarrow> connecting" where
  "connect_run parse c evs = foldl (connect_step parse) c evs"

text \<open>
  Reading aids for the statements about \<^verbatim>\<open>connect\<close>.  A bot is \<open>opened\<close> when it
  has a socket; \<open>wired\<close> is what holds of every state after \<^verbatim>\<open>connect()\<close>;
  \<open>login_refused\<close> is a login response (its properties \<open>kvs\<close>, those of
  \<^verbatim>\<open>curuser\<close>, the assertion) that the check refuses.
\<close>

definition opened :: "bot \<Rightarrow> bool" where
  "opened x = (ws x \<noteq> None)"

definition wired :: "connecting \<Rightarrow> bool" where
  "wired c \<longleftrightarrow> length (chains c) = length (bots (ps c)) \<and> list_all opened (bots (ps c))"

definition login_refused :: "(string \<times> jsval) list \<Rightarrow> (string \<times> jsval) list \<Rightarrow> string \<Rightarrow> bool" where
  "login_refused kvs cu a =
     ((case map_of kvs ''actionsuccess'' of None \<Rightarrow> True | Some v \<Rightarrow> \<not> js_truthy v)
      \<or> (case map_of cu ''loggedin'' of None \<Rightarrow> True | Some v \<Rightarrow> \<not> js_truthy v)
      \<or> starts_with a '';;'')"

section \<open>Sample frames\<close>

text \<open>
  The server frames a protocol line as \<^verbatim>\<open>a["..."]\<close>, the line written as a JSON
  string: quotes and backslashes escaped, a line feed written as backslash and
  \<^verbatim>\<open>n\<close>, as in the frame quoted at the end of the source.  The examples below are
  built with it.  \<open>sample_parse\<close> is \<^verbatim>\<open>JSON.parse\<close> on the texts the examples
  decode.
\<close>

definition sockjs_escape :: "string \<Rightarrow> string" where
  "sockjs_escape s =
     concat (map (\<lambda>c. if c = CHR 0x22 \<or> c = backslash then [backslash, c]
                        else if c = CHR 0x0A then bsn else [c]) s)"

definition sockjs_frame :: "string \<Rightarrow> string" where
  \<open>sockjs_frame line = ''a["'' @ sockjs_escape line @ ''"]''\<close>

definition userdetails_reply :: "string \<Rightarrow> string" where
  "userdetails_reply json = sockjs_frame (''|queryresponse|userdetails|'' @ json)"

definition sample_parse :: "string \<Rightarrow> jsval option" where
  \<open>sample_parse = map_of
     [(''{"name":"alice","rooms":{}}'', JObj [(''name'', JStr ''alice''), (''rooms'', JObj [])]),
      (''{"name":"bob","rooms":{}}'', JObj [(''name'', JStr ''bob''), (''rooms'', JObj [])]),
      (''{"name":"carol","rooms":{}}'', JObj [(''name'', JStr ''carol''), (''rooms'', JObj [])]),
      (''{"name":"dave","rooms":false}'', JObj [(''name'', JStr ''dave''), (''rooms'', JBool False)]),
      (''{"actionsuccess":false,"assertion":";;Wrong password.","curuser":{"loggedin":false}}'',
       JObj [(''actionsuccess'', JBool False), (''assertion'', JStr '';;Wrong password.''),
             (''curuser'', JObj [(''loggedin'', JBool False)])])]\<close>

definition sample_battle :: "jsval list \<Rightarrow> jsval list \<Rightarrow> jsval" where
  "sample_battle us1 us2 = JObj
     [(''message'', JStr ''gl hf''), (''chalcode'', JStr ''gen9ou''),
      (''side1'', JObj [(''team'', JStr ''T1''), (''usernames'', JArr us1)]),
      (''side2'', JObj [(''team'', JStr ''T2''), (''usernames'', JArr us2)])]"

text \<open>
  A double below 1 whose product with 37 is rounded up to 34 (the exact product is
  below 34), returned by every call of \<^verbatim>\<open>Math.random()\<close>; and the double 1/2.
\<close>

definition sample_double :: "nat \<Rightarrow> real" where
  "sample_double n = 4138442900826942 / 2 ^ 52"

definition sample_rnd :: "nat \<Rightarrow> real" where
  "sample_rnd n = 1 / 2"

definition sample_challstr :: string where
  "sample_challstr = sockjs_frame ''|challstr|4|0123abcd''"

definition sample_refusal :: string where
  \<open>sample_refusal =
     '']{"actionsuccess":false,"assertion":";;Wrong password.","curuser":{"loggedin":false}}''\<close>

definition sample_auth :: jsval where
  "sample_auth = JArr [JObj [(''name'', JStr ''botA''), (''pass'', JStr ''pwA'')],
                       JObj [(''name'', JStr ''botB''), (''pass'', JStr ''pwB'')]]"

text \<open>The state right after \<^verbatim>\<open>connect()\<close> on the two sample bots.\<close>

definition sample_connecting :: connecting where
  "sample_connecting =
     \<lparr>ps = \<lparr>bots =
        [\<lparr>entry = JObj [(''name'', JStr ''botA''), (''pass'', JStr ''pwA'')],
          ws = Some \<lparr>url = ''wss://sim3.psim.us/showdown/ssssssss/550/websocket'',
                      closed = False, idle_listener = False, frames = []\<rparr>\<rparr>,
         \<lparr>entry = JObj [(''name'', JStr ''botB''), (''pass'', JStr ''pwB'')],
          ws = Some \<lparr>url = ''wss://sim3.psim.us/showdown/ssssssss/550/websocket'',
                      closed = False, idle_listener = False, frames = []\<rparr>\<rparr>],
        aborted = False\<rparr>,
      chains = [AwaitChallstr, AwaitChallstr], first_failure = None\<rparr>"

text \<open>
  A run up to the accepted challenge, the room's first frame, the frame that ends the
  battle, and the notice that answers \<^verbatim>\<open>/savereplay\<close> (as a protocol line, before
  framing).
\<close>

definition sample_events :: "bevent list" where
  \<open>sample_events =
     [Msg A (userdetails_reply ''{"name":"alice","rooms":{}}''),
      Msg A (userdetails_reply ''{"name":"carol","rooms":{}}''),
      Msg B (sockjs_frame ''|pm| botA| botB|/challenge gen9ou||You are invited to join a battle||'')]\<close>

definition sample_init :: string where
  "sample_init = sockjs_frame (''>battle-x-1'' @ [CHR 0x0A] @ ''|init|battle'' @ [CHR 0x0A]
                               @ ''|title|botA vs. botB'')"

definition sample_win :: string where
  "sample_win = sockjs_frame (''>battle-x-1'' @ [CHR 0x0A] @ ''|'' @ [CHR 0x0A] @ ''|win|alice'')"

definition sample_notice :: string where
  \<open>sample_notice = ''|popup||html|<p>Your replay has been uploaded! It is available at:</p><p> <a class="no-panel-intercept" href="https://replay.pokemonshowdown.com/battle-x-1" target="_blank">https://replay.pokemonshowdown.com/battle-x-1</a>''\<close>

text \<open>Two predicates for the examples of \<^verbatim>\<open>awaitws\<close>.\<close>

definition returns_one :: "unit \<Rightarrow> string \<Rightarrow> pres \<times> unit" where
  "returns_one st msgraw = (Returned (JNum 1), st)"

definition returns_true :: "unit \<Rightarrow> string \<Rightarrow> pres \<times> unit" where
  "returns_true st msgraw = (Returned (JBool True), st)"

section \<open>The constructor\<close>

lemma bad_auth_entry_iff:
  "bad_auth_entry x \<longleftrightarrow>
     (\<not> js_truthy x \<or> \<not> carries x ''name'' \<or> \<not> carries x ''pass'' \<or> carries x ''ws'')"
  by (cases x) (auto simp: bad_auth_entry_def carries_def split: option.splits)

text \<open>
  C9.  The constructor throws "Invalid authentication data." exactly when the argument
  is not an array or some entry is falsy, carries no truthy \<^verbatim>\<open>name\<close>, carries no
  truthy \<^verbatim>\<open>pass\<close>, or carries a truthy \<^verbatim>\<open>ws\<close>; it throws nothing else.  When it
  succeeds the bots are the entries, none of them has a connection handle, and the shared
  AbortController is new and not aborted.
\<close>

theorem constructor_throws_iff:
  "(constructor auth = Inl (Err ''Invalid authentication data.'')
      \<longleftrightarrow> (\<not> is_array auth
           \<or> (\<exists>x\<in>set (elements auth).
                 \<not> js_truthy x \<or> \<not> carries x ''name'' \<or> \<not> carries x ''pass'' \<or> carries x ''ws'')))
   \<and> (\<forall>p. constructor auth = Inr p \<longrightarrow>
          map entry (bots p) = elements auth
          \<and> (\<forall>b\<in>set (bots p). ws b = None \<and> \<not> carries (entry b) ''ws'')
          \<and> \<not> aborted p)
   \<and> (constructor auth = Inl (Err ''Invalid authentication data.'') \<or> (\<exists>p. constructor auth = Inr p))"
proof (cases auth)
  case (JArr xs)
  have ex: "list_ex bad_auth_entry xs \<longleftrightarrow>
      (\<exists>x\<in>set xs. \<not> js_truthy x \<or> \<not> carries x ''name'' \<or> \<not> carries x ''pass'' \<or> carries x ''ws'')"
    by (simp add: list_ex_iff bad_auth_entry_iff)
  show ?thesis
  proof (cases "list_ex bad_auth_entry xs")
    case True
    with JArr ex show ?thesis by (simp add: constructor_def)
  next
    case False
    with ex have good: "\<forall>x\<in>set xs. \<not> carries x ''ws''" by blast
    from False JArr ex good show ?thesis
      by (auto simp: constructor_def comp_def)
  qed
qed (simp_all add: constructor_def)

theorem constructor_throws_iff_witness:
  "constructor (JArr [JObj [(''name'', JStr ''a''), (''pass'', JStr ''b'')],
                      JObj [(''name'', JStr ''c''), (''pass'', JStr ''d''), (''ws'', JNull)]])
     \<noteq> Inl (Err ''Invalid authentication data.'')
   \<and> constructor (JArr [JObj [(''name'', JStr ''a''), (''pass'', JStr ''b''), (''ws'', JObj [])]])
     = Inl (Err ''Invalid authentication data.'')
   \<and> constructor (JObj [(''name'', JStr ''a''), (''pass'', JStr ''b'')])
     = Inl (Err ''Invalid authentication data.'')"
  using constructor_throws_iff [of "JArr [JObj [(''name'', JStr ''a''), (''pass'', JStr ''b'')],
                      JObj [(''name'', JStr ''c''), (''pass'', JStr ''d''), (''ws'', JNull)]]"]
    constructor_throws_iff [of "JArr [JObj [(''name'', JStr ''a''), (''pass'', JStr ''b''), (''ws'', JObj [])]]"]
    constructor_throws_iff [of "JObj [(''name'', JStr ''a''), (''pass'', JStr ''b'')]"]
  by (simp add: carries_def)

subsection \<open>\<^verbatim>\<open>getEntry\<close>\<close>

declare dec_nat.simps [simp del] r1_loop.simps [simp del]
declare expo_up.simps [simp del] expo_down.simps [simp del]

lemma two_pow_pos: "0 < two_pow i"
  by (simp add: two_pow_def)

lemma two_pow_powr: "two_pow i = 2 powr real_of_int i"
proof (cases "0 \<le> i")
  case True
  then have "real_of_int i = real (nat i)" by simp
  then have "2 powr real_of_int i = 2 ^ nat i" by (simp only: powr_realpow)
  with True show ?thesis by (simp add: two_pow_def)
next
  case False
  then have "real_of_int i = - real (nat (- i))" by simp
  then have "2 powr real_of_int i = 1 / 2 ^ nat (- i)"
    by (simp only: powr_minus_divide powr_realpow)
  with False show ?thesis by (simp add: two_pow_def)
qed

lemma two_pow_mono: "i \<le> j \<Longrightarrow> two_pow i \<le> two_pow j"
  by (simp add: two_pow_powr powr_mono)

lemma rne_cases:
  "rne y = \<lfloor>y\<rfloor> \<and> y - real_of_int \<lfloor>y\<rfloor> \<le> 1 / 2
   \<or> rne y = \<lfloor>y\<rfloor> + 1 \<and> 1 / 2 \<le> y - real_of_int \<lfloor>y\<rfloor>"
  by (auto simp: rne_def Let_def)

lemma rne_le: "real_of_int (rne y) \<le> y + 1 / 2"
proof -
  have f: "real_of_int \<lfloor>y\<rfloor> \<le> y" by (rule of_int_floor_le)
  from rne_cases [of y] show ?thesis
  proof
    assume "rne y = \<lfloor>y\<rfloor> \<and> y - real_of_int \<lfloor>y\<rfloor> \<le> 1 / 2"
    then have "real_of_int (rne y) = real_of_int \<lfloor>y\<rfloor>" by simp
    with f show ?thesis by linarith
  next
    assume a: "rne y = \<lfloor>y\<rfloor> + 1 \<and> 1 / 2 \<le> y - real_of_int \<lfloor>y\<rfloor>"
    then have "real_of_int (rne y) = real_of_int \<lfloor>y\<rfloor> + 1" by simp
    with a show ?thesis by linarith
  qed
qed

lemma rne_nonneg: "0 \<le> y \<Longrightarrow> 0 \<le> rne y"
  by (auto simp: rne_def Let_def)

lemma ulp_pos: "0 < ulp x"
  by (simp add: ulp_def two_pow_pos)

lemma round_double_le:
  assumes "0 \<le> x"
  shows "round_double x \<le> x + ulp x / 2"
proof -
  have "real_of_int (rne (x / ulp x)) * ulp x \<le> (x / ulp x + 1 / 2) * ulp x"
    using rne_le [of "x / ulp x"] ulp_pos [of x] by (simp only: mult_le_cancel_right_pos)
  also have "\<dots> = x + ulp x / 2" using ulp_pos [of x] by (simp add: field_simps)
  finally show ?thesis using assms by (simp add: round_double_def)
qed

lemma round_double_nonneg:
  assumes "0 \<le> x"
  shows "0 \<le> round_double x"
proof -
  have "0 \<le> x / ulp x" using assms ulp_pos [of x] by simp
  then have "0 \<le> rne (x / ulp x)" by (rule rne_nonneg)
  then show ?thesis using assms ulp_pos [of x] by (simp add: round_double_def)
qed

lemma expo_up_le: "2 ^ k \<le> x \<Longrightarrow> 2 ^ expo_up x k \<le> x"
proof (induction x k rule: expo_up.induct)
  case (1 x k)
  show ?case
  proof (cases "1023 \<le> k \<or> x < 2 ^ Suc k")
    case True
    with "1.prems" show ?thesis by (simp add: expo_up.simps [of x k])
  next
    case False
    then have "2 ^ Suc k \<le> x" by simp
    with "1.IH" [OF False] False show ?thesis by (simp add: expo_up.simps [of x k])
  qed
qed

lemma exponent_le:
  assumes "x < 2 ^ Suc E"
  shows "exponent x \<le> int E"
proof (cases "1 \<le> x")
  case True
  then have "(2::real) ^ 0 \<le> x" by simp
  then have "2 ^ expo_up x 0 \<le> x" by (rule expo_up_le)
  with assms have "(2::real) ^ expo_up x 0 < 2 ^ Suc E" by linarith
  then have "expo_up x 0 < Suc E" by (simp only: power_strict_increasing_iff one_less_numeral_iff semiring_norm)
  with True show ?thesis by (simp add: exponent_def)
next
  case False
  then show ?thesis by (simp add: exponent_def)
qed

lemma ulp_le:
  assumes "x < 2 ^ Suc E"
  shows "ulp x \<le> two_pow (int E - 52)"
  unfolding ulp_def using exponent_le [OF assms] by (intro two_pow_mono) simp


lemma double_below_one:
  assumes "is_double r" and "0 \<le> r" and "r < 1"
  shows "r \<le> 1 - 1 / 2 ^ 53"
proof (cases "r < 1 / 2")
  case True
  have "(1::real) / 2 \<le> 1 - 1 / 2 ^ 53" by simp
  with True show ?thesis by linarith
next
  case False
  define P :: real where "P = 2 ^ 53"
  have P0: "0 < P" by (simp add: P_def)
  have Pi: "P = real_of_int (2 ^ 53)" by (simp add: P_def)
  from False have "1 \<le> r * 2 ^ 1" by simp
  then have "expo_down r 1 = 1" by (subst expo_down.simps) simp
  with assms(3) have "ulp r = 1 / P" by (simp add: ulp_def exponent_def two_pow_def P_def)
  with assms(1,2) have eq: "r = real_of_int (rne (r * P)) / P"
    by (simp add: is_double_def round_double_def)
  with assms(3) P0 have "real_of_int (rne (r * P)) < P"
    by (metis divide_less_eq_1_pos)
  then have "rne (r * P) < 2 ^ 53" by (simp only: Pi of_int_less_iff)
  then have "rne (r * P) \<le> 2 ^ 53 - 1" by linarith
  then have "real_of_int (rne (r * P)) \<le> real_of_int (2 ^ 53 - 1)" by (simp only: of_int_le_iff)
  also have "\<dots> = P - 1" by (simp add: P_def)
  finally have "real_of_int (rne (r * P)) / P \<le> (P - 1) / P"
    using P0 by (simp only: divide_right_mono less_imp_le)
  with eq have "r \<le> (P - 1) / P" by simp
  also have "\<dots> = 1 - 1 / P" using P0 by (simp add: field_simps)
  finally show ?thesis by (simp only: P_def)
qed


lemma two_pow_below:
  assumes "E \<le> 52"
  shows "two_pow (int E - 52) / 2 = 2 ^ E / 2 ^ 53"
proof -
  have "two_pow (int E - 52) = 2 powr (real E - 52)" by (simp add: two_pow_powr)
  also have "\<dots> = 2 powr real E / 2 powr 52" by (simp add: powr_diff)
  also have "\<dots> = 2 ^ E / 2 ^ 52" by (simp add: powr_realpow)
  finally show ?thesis by simp
qed

lemma fmul_floor_bound:
  assumes "is_double r" and "0 \<le> r" and "r < 1"
    and "2 ^ E < real n" and "real n \<le> 2 ^ Suc E" and "E \<le> 52"
  shows "0 \<le> \<lfloor>fmul r (real n)\<rfloor> \<and> \<lfloor>fmul r (real n)\<rfloor> < int n"
proof -
  define P :: real where "P = 2 ^ 53"
  define x where "x = r * real n"
  have P0: "0 < P" by (simp add: P_def)
  have "(0::real) < 2 ^ E" by simp
  with assms(4) have n0: "0 < real n" by linarith
  from assms(2) n0 have x0: "0 \<le> x" by (simp add: x_def)
  from double_below_one [OF assms(1-3)] have "r \<le> 1 - 1 / P" by (simp only: P_def)
  with n0 have "r * real n \<le> (1 - 1 / P) * real n"
    by (simp only: mult_right_mono less_imp_le)
  then have xn: "x \<le> real n - real n / P" by (simp add: x_def algebra_simps)
  from n0 P0 have "0 < real n / P" by simp
  with xn assms(5) have lt: "x < 2 ^ Suc E" by linarith
  from ulp_le [OF lt] have "ulp x / 2 \<le> two_pow (int E - 52) / 2" by simp
  also have "\<dots> = 2 ^ E / P" by (simp only: two_pow_below [OF assms(6)] P_def)
  finally have u: "ulp x / 2 \<le> 2 ^ E / P" .
  from assms(4) P0 have "2 ^ E / P < real n / P" by (simp only: divide_strict_right_mono)
  with round_double_le [OF x0] u xn have "round_double x < real n" by linarith
  then have "\<lfloor>round_double x\<rfloor> < int n" by (simp add: floor_less_iff)
  moreover from round_double_nonneg [OF x0] have "0 \<le> \<lfloor>round_double x\<rfloor>" by simp
  ultimately show ?thesis by (simp add: fmul_def x_def)
qed

lemma floor_fmul_37:
  "is_double r \<Longrightarrow> 0 \<le> r \<Longrightarrow> r < 1 \<Longrightarrow> 0 \<le> \<lfloor>fmul r 37\<rfloor> \<and> \<lfloor>fmul r 37\<rfloor> < 37"
  using fmul_floor_bound [of r 5 37] by simp

lemma floor_fmul_900:
  "is_double r \<Longrightarrow> 0 \<le> r \<Longrightarrow> r < 1 \<Longrightarrow> 0 \<le> \<lfloor>fmul r 900\<rfloor> \<and> \<lfloor>fmul r 900\<rfloor> < 900"
  using fmul_floor_bound [of r 9 900] by simp

lemma length_chars: "length chars = 37"
  by (simp add: chars_def)

lemma char_at_chars:
  assumes "0 \<le> i" "i < 37"
  shows "\<exists>c. char_at chars i = [c] \<and> c \<in> set chars"
proof -
  from assms have "nat i < length chars" by (simp add: length_chars)
  then have "chars ! nat i \<in> set chars" by (rule nth_mem)
  moreover from assms have "char_at chars i = [chars ! nat i]"
    by (simp add: char_at_def length_chars)
  ultimately show ?thesis by blast
qed

lemma r1_loop_shape:
  "(\<forall>n. is_double (rnd n) \<and> 0 \<le> rnd n \<and> rnd n < 1) \<Longrightarrow>
     length r1 \<le> 8 \<Longrightarrow> set r1 \<subseteq> set chars \<Longrightarrow>
     length (fst (r1_loop rnd k r1)) = 8 \<and> set (fst (r1_loop rnd k r1)) \<subseteq> set chars"
proof (induction rnd k r1 rule: r1_loop.induct)
  case (1 rnd k r1)
  show ?case
  proof (cases "length r1 < 8")
    case True
    from "1.prems" have "is_double (rnd k)" "0 \<le> rnd k" "rnd k < 1" by auto
    from floor_fmul_37 [OF this]
    have "0 \<le> \<lfloor>fmul (rnd k) (real (length chars))\<rfloor>"
      "\<lfloor>fmul (rnd k) (real (length chars))\<rfloor> < 37"
      by (simp_all add: length_chars)
    from char_at_chars [OF this] obtain c where
      c: "char_at chars \<lfloor>fmul (rnd k) (real (length chars))\<rfloor> = [c]" "c \<in> set chars"
      by blast
    have "length (r1 @ [c]) \<le> 8" "set (r1 @ [c]) \<subseteq> set chars"
      using True "1.prems" c by auto
    with "1.IH" [OF True] "1.prems" c True show ?thesis
      by (simp add: r1_loop.simps [of rnd k r1])
  next
    case False
    with "1.prems" show ?thesis by (simp add: r1_loop.simps [of rnd k r1])
  qed
qed

lemma dec_nat_3:
  assumes "100 \<le> n" "n \<le> 999"
  shows "dec_nat n = [digit_char (n div 100), digit_char (n div 10 mod 10), digit_char (n mod 10)]"
proof -
  have a: "\<not> n < 10" "\<not> n div 10 < 10" "n div 100 < 10" using assms by auto
  have b: "n div 10 div 10 = n div 100" by (simp add: div_mult2_eq)
  have "dec_nat (n div 100) = [digit_char (n div 100)]"
    using a by (simp add: dec_nat.simps [of "n div 100"])
  moreover have "dec_nat (n div 10) = dec_nat (n div 100) @ [digit_char (n div 10 mod 10)]"
    using a b by (simp add: dec_nat.simps [of "n div 10"])
  moreover have "dec_nat n = dec_nat (n div 10) @ [digit_char (n mod 10)]"
    using a by (simp add: dec_nat.simps [of n])
  ultimately show ?thesis by simp
qed

text \<open>
  C10.  Whatever doubles in \<open>[0, 1)\<close> \<^verbatim>\<open>Math.random()\<close> returns, with the products
  rounded as doubles are, the URL of \<^verbatim>\<open>getEntry\<close> is
  \<^verbatim>\<open>wss://sim3.psim.us/showdown/<r1>/<r2>/websocket\<close> with \<open>r1\<close> of exactly 8
  characters, each one of \<^verbatim>\<open>a-z\<close>, \<^verbatim>\<open>0-9\<close> and the underscore, and \<open>r2\<close> an
  integer from 100 to 999, written with its three decimal digits.
\<close>

theorem getEntry_shape:
  assumes "\<forall>n. is_double (rnd n) \<and> 0 \<le> rnd n \<and> rnd n < 1"
  shows "\<exists>r1 r2. fst (getEntry rnd k)
            = ''wss://sim3.psim.us/showdown/'' @ r1 @ ''/'' @ dec_int r2 @ ''/websocket''
          \<and> length r1 = 8 \<and> set r1 \<subseteq> set chars
          \<and> 100 \<le> r2 \<and> r2 \<le> 999
          \<and> dec_int r2 = [digit_char (nat r2 div 100), digit_char (nat r2 div 10 mod 10),
                           digit_char (nat r2 mod 10)]"
proof -
  obtain r1 k' where loop: "r1_loop rnd k [] = (r1, k')" by (cases "r1_loop rnd k []")
  define r2 where "r2 = \<lfloor>fmul (rnd k') 900\<rfloor> + 100"
  from r1_loop_shape [OF assms, of "[]" k] loop
  have r1: "length r1 = 8" "set r1 \<subseteq> set chars" by simp_all
  from assms have "is_double (rnd k')" "0 \<le> rnd k'" "rnd k' < 1" by auto
  from floor_fmul_900 [OF this] have r2: "100 \<le> r2" "r2 \<le> 999"
    by (simp_all add: r2_def)
  then have "dec_int r2 = [digit_char (nat r2 div 100), digit_char (nat r2 div 10 mod 10),
                           digit_char (nat r2 mod 10)]"
    using dec_nat_3 [of "nat r2"] by (simp add: dec_int_def)
  moreover have "fst (getEntry rnd k)
      = ''wss://sim3.psim.us/showdown/'' @ r1 @ ''/'' @ dec_int r2 @ ''/websocket''"
    using loop by (simp add: getEntry_def r2_def)
  ultimately show ?thesis using r1 r2 by blast
qed

theorem getEntry_shape_witness:
  "(\<forall>n::nat. is_double (sample_double n) \<and> 0 \<le> sample_double n \<and> sample_double n < 1)
   \<and> (\<exists>r1 r2. fst (getEntry sample_double 0)
            = ''wss://sim3.psim.us/showdown/'' @ r1 @ ''/'' @ dec_int r2 @ ''/websocket''
          \<and> length r1 = 8 \<and> set r1 \<subseteq> set chars
          \<and> 100 \<le> r2 \<and> r2 \<le> 999
          \<and> dec_int r2 = [digit_char (nat r2 div 100), digit_char (nat r2 div 10 mod 10),
                           digit_char (nat r2 mod 10)])
   \<and> fst (getEntry sample_double 0) = ''wss://sim3.psim.us/showdown/88888888/927/websocket''"
proof (intro conjI)
  have d: "is_double (4138442900826942 / 2 ^ 52)" by code_simp
  show h: "\<forall>n::nat. is_double (sample_double n) \<and> 0 \<le> sample_double n \<and> sample_double n < 1"
    using d by (simp add: sample_double_def)
  show "\<exists>r1 r2. fst (getEntry sample_double 0)
            = ''wss://sim3.psim.us/showdown/'' @ r1 @ ''/'' @ dec_int r2 @ ''/websocket''
          \<and> length r1 = 8 \<and> set r1 \<subseteq> set chars
          \<and> 100 \<le> r2 \<and> r2 \<le> 999
          \<and> dec_int r2 = [digit_char (nat r2 div 100), digit_char (nat r2 div 10 mod 10),
                           digit_char (nat r2 mod 10)]"
    using getEntry_shape [OF h, of 0] .
  show "fst (getEntry sample_double 0) = ''wss://sim3.psim.us/showdown/88888888/927/websocket''"
    by code_simp
qed

section \<open>\<^verbatim>\<open>awaitws\<close> settles once\<close>

text \<open>
  C5, as the code has it.  While a call is listening, a message on which the predicate
  returns the boolean \<^verbatim>\<open>true\<close> resolves the call with that message and removes the
  listener; one on which it returns a string rejects the call with that string as
  \<^verbatim>\<open>reason\<close> (and the message) and removes the listener; on any other value the
  predicate returns (\<^verbatim>\<open>undefined\<close> when it returns nothing, and also a truthy value
  that is neither \<^verbatim>\<open>true\<close> nor a string) the call stays as it was and keeps
  listening.
\<close>

theorem awaitws_listener_cases:
  assumes "outcome w = None" and "\<not> ctrl_aborted w"
    and "predicate st msgraw = (Returned v, st')"
  shows "(v = JBool True \<longrightarrow>
            awaitws_listener predicate msgraw (w, st)
              = (w\<lparr>outcome := Some (Resolved msgraw), ctrl_aborted := True\<rparr>, st'))
       \<and> (\<forall>reason. v = JStr reason \<longrightarrow>
            awaitws_listener predicate msgraw (w, st)
              = (w\<lparr>outcome := Some (Rejected (Reason reason msgraw)), ctrl_aborted := True\<rparr>, st'))
       \<and> (v \<noteq> JBool True \<and> (\<forall>reason. v \<noteq> JStr reason) \<longrightarrow>
            awaitws_listener predicate msgraw (w, st) = (w, st'))"
proof (intro conjI allI impI)
  assume "v = JBool True"
  with assms show "awaitws_listener predicate msgraw (w, st)
              = (w\<lparr>outcome := Some (Resolved msgraw), ctrl_aborted := True\<rparr>, st')"
    by (simp add: awaitws_listener_def res_def ctrl_abort_def)
next
  fix reason assume "v = JStr reason"
  with assms show "awaitws_listener predicate msgraw (w, st)
              = (w\<lparr>outcome := Some (Rejected (Reason reason msgraw)), ctrl_aborted := True\<rparr>, st')"
    by (simp add: awaitws_listener_def rej_def ctrl_abort_def)
next
  assume "v \<noteq> JBool True \<and> (\<forall>reason. v \<noteq> JStr reason)"
  with assms show "awaitws_listener predicate msgraw (w, st) = (w, st')"
    by (cases v) (auto simp: awaitws_listener_def)
qed

theorem awaitws_listener_cases_witness:
  "awaitws_listener returns_true ''a'' (awaitws, ())
     = (awaitws\<lparr>outcome := Some (Resolved ''a''), ctrl_aborted := True\<rparr>, ())
   \<and> awaitws_listener returns_one ''a'' (awaitws, ()) = (awaitws, ())"
  using awaitws_listener_cases [of awaitws returns_true "()" "''a''" "JBool True" "()"]
    awaitws_listener_cases [of awaitws returns_one "()" "''a''" "JNum 1" "()"]
  by (simp add: awaitws_def returns_true_def returns_one_def)

text \<open>
  C5 as stated fails for a truthy value that is neither \<^verbatim>\<open>true\<close> nor a string: the
  predicate returns 1 and the call is neither resolved nor deregistered.
\<close>

theorem awaitws_truthy_counterexample:
  "js_truthy (JNum 1)
   \<and> returns_one () ''a'' = (Returned (JNum 1), ())
   \<and> outcome (fst (awaitws_listener returns_one ''a'' (awaitws, ()))) = None
   \<and> \<not> ctrl_aborted (fst (awaitws_listener returns_one ''a'' (awaitws, ())))"
  by (simp add: awaitws_listener_def awaitws_def returns_one_def)

lemma settled_stays:
  "outcome w \<noteq> None \<Longrightarrow> ctrl_aborted w \<Longrightarrow> awaitws_event predicate (w, st) ev = (w, st)"
  by (cases ev) (auto simp: awaitws_listener_def awaitws_timeout_def rej_def ctrl_abort_def)

lemma settled_aborted_step:
  assumes "awaitws_event predicate (w, st) ev = (w', st')"
    and "outcome w \<noteq> None \<longrightarrow> ctrl_aborted w"
  shows "outcome w' \<noteq> None \<longrightarrow> ctrl_aborted w'"
proof (cases ev)
  case (Message m)
  obtain p st1 where p: "predicate st m = (p, st1)" by (cases "predicate st m")
  with assms Message show ?thesis
    by (cases p) (auto simp: awaitws_listener_def res_def rej_def ctrl_abort_def
        split: if_splits jsval.splits)
next
  case TimerFired
  with assms show ?thesis by (auto simp: awaitws_timeout_def rej_def ctrl_abort_def)
qed

lemma settled_aborted_run:
  "outcome (fst (awaitws_run predicate st evs)) \<noteq> None
     \<longrightarrow> ctrl_aborted (fst (awaitws_run predicate st evs))"
proof (induction evs rule: rev_induct)
  case Nil
  show ?case by (simp add: awaitws_run_def awaitws_def)
next
  case (snoc ev evs)
  obtain w s where ws: "awaitws_run predicate st evs = (w, s)" by (cases "awaitws_run predicate st evs")
  obtain w' s' where ws': "awaitws_event predicate (w, s) ev = (w', s')"
    by (cases "awaitws_event predicate (w, s) ev")
  from snoc ws have "outcome w \<noteq> None \<longrightarrow> ctrl_aborted w" by simp
  from settled_aborted_step [OF ws' this] ws ws' show ?case
    by (simp add: awaitws_run_def)
qed

lemma settled_run_more:
  "outcome w \<noteq> None \<Longrightarrow> ctrl_aborted w \<Longrightarrow> foldl (awaitws_event predicate) (w, st) evs = (w, st)"
  by (induction evs) (simp_all add: settled_stays)

text \<open>
  C6.  Once a call has settled, its listener is removed and no later message or timer
  changes the call or the state its predicate works on; the timer settles a call that
  is still pending, so every call settles; aborting the controller again changes nothing.
\<close>

theorem awaitws_settles_once:
  "(outcome (fst (awaitws_run predicate st evs)) \<noteq> None \<longrightarrow>
       ctrl_aborted (fst (awaitws_run predicate st evs))
       \<and> awaitws_run predicate st (evs @ later) = awaitws_run predicate st evs)
   \<and> outcome (fst (awaitws_run predicate st (evs @ [TimerFired]))) \<noteq> None
   \<and> ctrl_abort (ctrl_abort w) = ctrl_abort w"
proof (intro conjI impI)
  assume s: "outcome (fst (awaitws_run predicate st evs)) \<noteq> None"
  with settled_aborted_run [of predicate st evs]
  show a: "ctrl_aborted (fst (awaitws_run predicate st evs))" by simp
  obtain w s' where ws: "awaitws_run predicate st evs = (w, s')" by (cases "awaitws_run predicate st evs")
  with s a show "awaitws_run predicate st (evs @ later) = awaitws_run predicate st evs"
    using settled_run_more [of w predicate s' later] by (simp add: awaitws_run_def)
next
  obtain w s' where ws: "awaitws_run predicate st evs = (w, s')" by (cases "awaitws_run predicate st evs")
  then show "outcome (fst (awaitws_run predicate st (evs @ [TimerFired]))) \<noteq> None"
    by (simp add: awaitws_run_def awaitws_timeout_def rej_def ctrl_abort_def)
next
  show "ctrl_abort (ctrl_abort w) = ctrl_abort w" by (simp add: ctrl_abort_def)
qed

theorem awaitws_settles_once_witness:
  "outcome (fst (awaitws_run returns_true () [Message ''a''])) = Some (Resolved ''a'')
   \<and> awaitws_run returns_true () ([Message ''a''] @ [Message ''b'', TimerFired, Message ''c''])
       = awaitws_run returns_true () [Message ''a'']"
  using awaitws_settles_once [of returns_true "()" "[Message ''a'']" "[Message ''b'', TimerFired, Message ''c'']"]
  by (simp add: awaitws_run_def awaitws_listener_def awaitws_def returns_true_def res_def ctrl_abort_def)

section \<open>The input checks of \<^verbatim>\<open>battle\<close>\<close>

lemma check_side_rejected:
  "side_rejected kvs \<Longrightarrow> check_side (JObj kvs) = Inr None"
  by (auto simp: side_rejected_def check_side_def split: option.splits jsval.splits)

lemma check_side_object:
  "check_side (JObj kvs) = Inr None \<or> (\<exists>sd. check_side (JObj kvs) = Inr (Some sd))"
  by (auto simp: check_side_def split: option.splits jsval.splits)

lemma check_battle_rejected:
  assumes "map_of kvs ''side1'' = Some (JObj s1)" and "map_of kvs ''side2'' = Some (JObj s2)"
    and "side_rejected s1 \<or> side_rejected s2"
  shows "check_battle (JObj kvs) = Inr None"
proof -
  from assms(3) have "check_side (JObj s1) = Inr None \<or> check_side (JObj s2) = Inr None"
    using check_side_rejected by blast
  moreover note check_side_object [of s1]
  ultimately show ?thesis using assms(1,2)
    by (auto simp: check_battle_def split: option.splits sum.splits)
qed

text \<open>
  C4, as the code has it.  When the argument is an object whose two sides are objects and
  one of them has no string \<^verbatim>\<open>team\<close>, no array \<^verbatim>\<open>usernames\<close>, or a truthy
  \<^verbatim>\<open>confirmed\<close>, \<^verbatim>\<open>battle\<close> throws "Invalid data in argument." and nothing has been
  sent on either connection.
\<close>

theorem battle_rejects_bad_spec:
  assumes "b = JObj kvs"
    and "map_of kvs ''side1'' = Some (JObj s1)" and "map_of kvs ''side2'' = Some (JObj s2)"
    and "side_rejected s1 \<or> side_rejected s2"
  shows "battle_call b wire = Inl (Err ''Invalid data in argument.'') \<and> wire_after b wire = wire"
  using check_battle_rejected [OF assms(2,3,4)] assms(1)
  by (simp add: battle_call_def wire_after_def)

theorem battle_rejects_bad_spec_witness:
  "battle_call (JObj [(''message'', JStr ''gl hf''), (''chalcode'', JStr ''gen9ou''),
        (''side1'', JObj [(''team'', JStr ''T1''), (''usernames'', JArr [JStr ''alice''])]),
        (''side2'', JObj [(''usernames'', JArr [JStr ''carol''])])]) [(B, ''x'')]
     = Inl (Err ''Invalid data in argument.'')
   \<and> wire_after (JObj [(''message'', JStr ''gl hf''), (''chalcode'', JStr ''gen9ou''),
        (''side1'', JObj [(''team'', JStr ''T1''), (''usernames'', JArr [JStr ''alice''])]),
        (''side2'', JObj [(''usernames'', JArr [JStr ''carol''])])]) [(B, ''x'')] = [(B, ''x'')]"
  using battle_rejects_bad_spec [of _ "[(''message'', JStr ''gl hf''), (''chalcode'', JStr ''gen9ou''),
        (''side1'', JObj [(''team'', JStr ''T1''), (''usernames'', JArr [JStr ''alice''])]),
        (''side2'', JObj [(''usernames'', JArr [JStr ''carol''])])]"
        "[(''team'', JStr ''T1''), (''usernames'', JArr [JStr ''alice''])]"
        "[(''usernames'', JArr [JStr ''carol''])]" "[(B, ''x'')]"]
  by (simp add: side_rejected_def)

text \<open>
  C4 as stated fails for an empty \<^verbatim>\<open>usernames\<close> array: the checks accept it and the
  lookups for the other side are sent.
\<close>

theorem battle_accepts_empty_usernames_counterexample:
  \<open>\<not> isl (battle_call (sample_battle [] [JStr ''carol'']) [])
   \<and> usernames (side1 (spec (projr (battle_call (sample_battle [] [JStr ''carol'']) [])))) = []
   \<and> wire_after (sample_battle [] [JStr ''carol'']) [] = [(A, ''["|/cmd userdetails carol"]'')]\<close>
  by (simp add: battle_call_def wire_after_def check_battle_def check_side_def sample_battle_def
      userdetails_def msgToRaw_def)

section \<open>The first wait: confirming the players\<close>

lemma js_find_mem: "js_truthy (js_find P xs) \<Longrightarrow> js_find P xs \<in> set xs"
  by (auto simp: js_find_def split: option.splits dest: find_Some_iff [THEN iffD1] intro: nth_mem)

lemma strict_eq_same: "strict_eq x y \<Longrightarrow> x = y"
  by (cases x; cases y) simp_all

lemma js_find_string:
  "JStr s \<in> set xs \<Longrightarrow> js_find (\<lambda>x. strict_eq x (JStr s)) xs = JStr s"
proof (induction xs)
  case Nil
  then show ?case by simp
next
  case (Cons x xs)
  then show ?case
    by (cases "strict_eq x (JStr s)") (auto simp: js_find_def dest: strict_eq_same)
qed

lemma js_find_absent:
  "JStr s \<notin> set xs \<Longrightarrow> js_find (\<lambda>x. strict_eq x (JStr s)) xs = JUndefined"
proof (induction xs)
  case Nil
  then show ?case by (simp add: js_find_def)
next
  case (Cons x xs)
  then show ?case
    by (cases "strict_eq x (JStr s)") (auto simp: js_find_def dest: strict_eq_same)
qed

lemma pred_players_kept: "kept b (snd (pred_players parse b msgraw))"
  unfolding pred_players_def Let_def kept_def
  by (auto split: option.splits sum.splits dest: js_find_mem)


lemma await_on_snd: "snd (await_on P m st) = snd (P st m)"
proof (cases "P st m")
  case (Pair p s)
  then show ?thesis
    by (cases p) (auto simp: await_on_def awaitws_listener_def awaitws_def split: jsval.splits)
qed

lemma await_on_true:
  "P st m = (Returned (JBool True), s) \<Longrightarrow> await_on P m st = (Some (Resolved m), s)"
  by (simp add: await_on_def awaitws_listener_def awaitws_def res_def ctrl_abort_def)

lemma await_on_string:
  "P st m = (Returned (JStr x), s) \<Longrightarrow> await_on P m st = (Some (Rejected (Reason x m)), s)"
  by (simp add: await_on_def awaitws_listener_def awaitws_def rej_def ctrl_abort_def)

lemma await_on_undefined:
  "P st m = (Returned JUndefined, s) \<Longrightarrow> await_on P m st = (None, s)"
  by (simp add: await_on_def awaitws_listener_def awaitws_def)

lemma await_on_cases:
  "await_on P m st = (None, snd (P st m))
   \<or> await_on P m st = (Some (Resolved m), snd (P st m))
   \<or> (\<exists>x. await_on P m st = (Some (Rejected (Reason x m)), snd (P st m)))"
proof (cases "P st m")
  case (Pair p s)
  then show ?thesis
    by (cases p)
      (auto simp: await_on_def awaitws_listener_def awaitws_def res_def rej_def ctrl_abort_def
        split: jsval.splits)
qed

lemma spec_then [simp]:
  "spec (then_players b r) = spec r" "spec (then_challenge a r) = spec r"
  "spec (then_init m r) = spec r" "spec (then_win room1 r) = spec r"
  "spec (then_replay room1 m r) = spec r" "spec (reject_run e r) = spec r"
  by (simp_all add: then_players_def then_challenge_def then_init_def then_win_def
      then_replay_def reject_run_def send_def Let_def split: stage.splits)

lemma on_frame_spec:
  "spec (on_frame parse a b m r)
     = (if stage r = AwaitPlayers then snd (pred_players parse (spec r) m) else spec r)"
proof (cases "stage r")
  case AwaitPlayers
  with await_on_cases [of "pred_players parse" m "spec r"] show ?thesis
    by (auto simp: on_frame_def)
next
  case AwaitChallenge
  with await_on_cases [of "pred_challenge a b" m "()"] show ?thesis
    by (auto simp: on_frame_def)
next
  case AwaitInit
  with await_on_cases [of pred_init m "()"] show ?thesis
    by (auto simp: on_frame_def)
next
  case (AwaitWin room1)
  with await_on_cases [of pred_win m "()"] show ?thesis
    by (auto simp: on_frame_def)
next
  case (AwaitReplay room1)
  with await_on_cases [of "pred_replay room1" m "()"] show ?thesis
    by (auto simp: on_frame_def)
next
  case Idle
  then show ?thesis by (simp add: on_frame_def)
qed

lemma timeout_rejects:
  "outcome (fst (awaitws_timeout (awaitws, ()))) = Some (Rejected TimedOut)"
  by (simp add: awaitws_timeout_def awaitws_def rej_def ctrl_abort_def)

lemma battle_step_timeout:
  "battle_step parse a b r (Timeout k) = (if wait_no (stage r) = k then reject_run TimedOut r else r)"
  by (simp add: timeout_rejects)

lemma kept_refl: "kept b b"
  by (simp add: kept_def)

lemma kept_trans: "kept b b' \<Longrightarrow> kept b' b'' \<Longrightarrow> kept b b''"
  by (auto simp: kept_def)

lemma kept_step: "kept (spec r) (spec (battle_step parse a b r ev))"
proof (cases ev)
  case (Msg c m)
  then show ?thesis by (simp add: on_frame_spec pred_players_kept kept_refl)
next
  case (Timeout k)
  then show ?thesis by (simp add: timeout_rejects kept_refl)
qed

lemma kept_run: "kept (spec r) (spec (battle_run parse a b r evs))"
proof (induction evs rule: rev_induct)
  case Nil
  show ?case by (simp add: battle_run_def kept_refl)
next
  case (snoc ev evs)
  from kept_trans [OF snoc kept_step [of "battle_run parse a b r evs" parse a b ev]]
  show ?case by (simp add: battle_run_def)
qed

lemma check_side_fresh: "check_side s = Inr (Some sd) \<Longrightarrow> \<not> js_truthy (confirmed sd)"
  by (auto simp: check_side_def split: if_splits sum.splits)

lemma check_battle_fresh:
  "check_battle b = Inr (Some sp) \<Longrightarrow>
     \<not> js_truthy (confirmed (side1 sp)) \<and> \<not> js_truthy (confirmed (side2 sp))"
  by (auto simp: check_battle_def split: if_splits sum.splits option.splits dest: check_side_fresh)

lemma battle_call_start:
  assumes "battle_call b wire = Inr r0"
  shows "stage r0 = AwaitPlayers" "room r0 = Pending" "replay r0 = None"
    "sent r0 = wire @ map userdetails (usernames (side1 (spec r0)))
                    @ map userdetails (usernames (side2 (spec r0)))"
    "\<not> js_truthy (confirmed (side1 (spec r0)))" "\<not> js_truthy (confirmed (side2 (spec r0)))"
  using assms check_battle_fresh [of b]
  by (auto simp: battle_call_def split: sum.splits option.splits)

lemma userdetails_ofD:
  assumes "userdetails_of parse msgraw = Some details"
  shows "\<exists>d3. item_at (js_split ''|'' (js_slice msgraw 3 (- 2))) 1 = Some ''queryresponse''
            \<and> item_at (js_split ''|'' (js_slice msgraw 3 (- 2))) 2 = Some ''userdetails''
            \<and> item_at (js_split ''|'' (js_slice msgraw 3 (- 2))) 3 = Some d3
            \<and> parse (filter (\<lambda>c. c \<noteq> backslash) d3) = Some details"
  using assms by (auto simp: userdetails_of_def Let_def split: if_splits option.splits)

lemma pred_players_online1:
  assumes "userdetails_of parse msgraw = Some (JObj kvs)"
    and "map_of kvs ''name'' = Some (JStr s)" and "s \<noteq> []"
    and "map_of kvs ''rooms'' = Some rooms" and "js_truthy rooms"
    and "JStr s \<in> set (usernames (side1 b))"
  shows "confirmed (side1 (snd (pred_players parse b msgraw))) = JStr s"
proof -
  from userdetails_ofD [OF assms(1)] obtain d3 where
    "item_at (js_split ''|'' (js_slice msgraw 3 (- 2))) 1 = Some ''queryresponse''"
    "item_at (js_split ''|'' (js_slice msgraw 3 (- 2))) 2 = Some ''userdetails''"
    "item_at (js_split ''|'' (js_slice msgraw 3 (- 2))) 3 = Some d3"
    "parse (filter (\<lambda>c. c \<noteq> backslash) d3) = Some (JObj kvs)" by blast
  with assms(2-6) show ?thesis
    by (simp add: pred_players_def Let_def js_find_string)
qed

lemma pred_players_online2:
  assumes "userdetails_of parse msgraw = Some (JObj kvs)"
    and "map_of kvs ''name'' = Some (JStr s)" and "s \<noteq> []"
    and "map_of kvs ''rooms'' = Some rooms" and "js_truthy rooms"
    and "JStr s \<notin> set (usernames (side1 b))" and "JStr s \<in> set (usernames (side2 b))"
  shows "confirmed (side2 (snd (pred_players parse b msgraw))) = JStr s"
proof -
  from userdetails_ofD [OF assms(1)] obtain d3 where
    "item_at (js_split ''|'' (js_slice msgraw 3 (- 2))) 1 = Some ''queryresponse''"
    "item_at (js_split ''|'' (js_slice msgraw 3 (- 2))) 2 = Some ''userdetails''"
    "item_at (js_split ''|'' (js_slice msgraw 3 (- 2))) 3 = Some d3"
    "parse (filter (\<lambda>c. c \<noteq> backslash) d3) = Some (JObj kvs)" by blast
  with assms(2-7) show ?thesis
    by (simp add: pred_players_def Let_def js_find_string js_find_absent)
qed

lemma pred_players_offline:
  assumes "userdetails_of parse msgraw = Some (JObj kvs)"
    and "map_of kvs ''name'' = Some (JStr s)" and "s \<noteq> []"
    and "case map_of kvs ''rooms'' of None \<Rightarrow> True | Some rooms \<Rightarrow> \<not> js_truthy rooms"
    and "JStr s \<in> set (usernames (side1 b)) \<union> set (usernames (side2 b))"
  shows "pred_players parse b msgraw = (Returned (JStr (''User is offline: '' @ s)), b)"
proof -
  from userdetails_ofD [OF assms(1)] obtain d3 where
    "item_at (js_split ''|'' (js_slice msgraw 3 (- 2))) 1 = Some ''queryresponse''"
    "item_at (js_split ''|'' (js_slice msgraw 3 (- 2))) 2 = Some ''userdetails''"
    "item_at (js_split ''|'' (js_slice msgraw 3 (- 2))) 3 = Some d3"
    "parse (filter (\<lambda>c. c \<noteq> backslash) d3) = Some (JObj kvs)" by blast
  moreover have "JStr s \<in> set (usernames (side1 b))
      \<or> (JStr s \<notin> set (usernames (side1 b)) \<and> JStr s \<in> set (usernames (side2 b)))"
    using assms(5) by blast
  ultimately show ?thesis using assms(2-4)
    by (auto simp: pred_players_def Let_def js_find_string js_find_absent split: option.splits)
qed

lemma on_frame_players:
  "stage r = AwaitPlayers \<Longrightarrow>
     spec (battle_step parse a b r (Msg A m)) = snd (pred_players parse (spec r) m)"
  by (simp add: on_frame_spec)

text \<open>
  C1, as the code has it.  In every run of an accepted argument the candidate lists stay
  as they were and a side's \<^verbatim>\<open>confirmed\<close>, once truthy, is one of that side's
  \<^verbatim>\<open>usernames\<close>.  It is not bound once and for all: while the first wait is listening,
  a reply that reports an account with truthy \<^verbatim>\<open>rooms\<close> binds side 1 to that name
  when the name is among the candidates of side 1, and binds side 2 to it when the name is
  among the candidates of side 2 and not among those of side 1, whatever was bound before.
\<close>

theorem confirmed_is_candidate:
  assumes "battle_call b wire = Inr r0" and "r = battle_run parse nameA nameB r0 evs"
  shows "usernames (side1 (spec r)) = usernames (side1 (spec r0))
       \<and> usernames (side2 (spec r)) = usernames (side2 (spec r0))
       \<and> (js_truthy (confirmed (side1 (spec r)))
            \<longrightarrow> confirmed (side1 (spec r)) \<in> set (usernames (side1 (spec r0))))
       \<and> (js_truthy (confirmed (side2 (spec r)))
            \<longrightarrow> confirmed (side2 (spec r)) \<in> set (usernames (side2 (spec r0))))
       \<and> (\<forall>msgraw kvs s rooms.
             stage r = AwaitPlayers \<and> userdetails_of parse msgraw = Some (JObj kvs)
             \<and> map_of kvs ''name'' = Some (JStr s) \<and> s \<noteq> []
             \<and> map_of kvs ''rooms'' = Some rooms \<and> js_truthy rooms
             \<longrightarrow> (JStr s \<in> set (usernames (side1 (spec r)))
                    \<longrightarrow> confirmed (side1 (spec (battle_step parse nameA nameB r (Msg A msgraw))))
                          = JStr s)
                \<and> (JStr s \<notin> set (usernames (side1 (spec r)))
                     \<and> JStr s \<in> set (usernames (side2 (spec r)))
                    \<longrightarrow> confirmed (side2 (spec (battle_step parse nameA nameB r (Msg A msgraw))))
                          = JStr s))"
proof -
  from kept_run [of r0 parse nameA nameB evs] assms(2) have k: "kept (spec r0) (spec r)" by simp
  from battle_call_start(5,6) [OF assms(1)]
  have fresh: "\<not> js_truthy (confirmed (side1 (spec r0)))" "\<not> js_truthy (confirmed (side2 (spec r0)))" .
  have 1: "usernames (side1 (spec r)) = usernames (side1 (spec r0))"
    and 2: "usernames (side2 (spec r)) = usernames (side2 (spec r0))"
    using k by (simp_all add: kept_def)
  have 3: "js_truthy (confirmed (side1 (spec r)))
            \<longrightarrow> confirmed (side1 (spec r)) \<in> set (usernames (side1 (spec r0)))"
    using k fresh(1) by (auto simp: kept_def)
  have 4: "js_truthy (confirmed (side2 (spec r)))
            \<longrightarrow> confirmed (side2 (spec r)) \<in> set (usernames (side2 (spec r0)))"
    using k fresh(2) by (auto simp: kept_def)
  have 5: "\<forall>msgraw kvs s rooms.
             stage r = AwaitPlayers \<and> userdetails_of parse msgraw = Some (JObj kvs)
             \<and> map_of kvs ''name'' = Some (JStr s) \<and> s \<noteq> []
             \<and> map_of kvs ''rooms'' = Some rooms \<and> js_truthy rooms
             \<longrightarrow> (JStr s \<in> set (usernames (side1 (spec r)))
                    \<longrightarrow> confirmed (side1 (spec (battle_step parse nameA nameB r (Msg A msgraw))))
                          = JStr s)
                \<and> (JStr s \<notin> set (usernames (side1 (spec r)))
                     \<and> JStr s \<in> set (usernames (side2 (spec r)))
                    \<longrightarrow> confirmed (side2 (spec (battle_step parse nameA nameB r (Msg A msgraw))))
                          = JStr s)"
    using pred_players_online1 pred_players_online2 on_frame_players by metis
  from 1 2 3 4 5 show ?thesis by blast
qed

theorem confirmed_is_candidate_witness:
  \<open>battle_call (sample_battle [JStr ''alice'', JStr ''bob''] [JStr ''carol'']) [] \<noteq> Inl TypeError
   \<and> stage (battle_run sample_parse (JStr ''botA'') (JStr ''botB'')
        (projr (battle_call (sample_battle [JStr ''alice'', JStr ''bob''] [JStr ''carol'']) []))
        [Msg A (userdetails_reply ''{"name":"alice","rooms":{}}'')]) = AwaitPlayers
   \<and> userdetails_of sample_parse (userdetails_reply ''{"name":"bob","rooms":{}}'')
        = Some (JObj [(''name'', JStr ''bob''), (''rooms'', JObj [])])
   \<and> confirmed (side1 (spec (battle_run sample_parse (JStr ''botA'') (JStr ''botB'')
        (projr (battle_call (sample_battle [JStr ''alice'', JStr ''bob''] [JStr ''carol'']) []))
        [Msg A (userdetails_reply ''{"name":"alice","rooms":{}}'')])))
       \<in> set [JStr ''alice'', JStr ''bob'']
   \<and> confirmed (side1 (spec (battle_step sample_parse (JStr ''botA'') (JStr ''botB'')
        (battle_run sample_parse (JStr ''botA'') (JStr ''botB'')
          (projr (battle_call (sample_battle [JStr ''alice'', JStr ''bob''] [JStr ''carol'']) []))
          [Msg A (userdetails_reply ''{"name":"alice","rooms":{}}'')])
        (Msg A (userdetails_reply ''{"name":"bob","rooms":{}}''))))) = JStr ''bob''\<close>
proof -
  let ?b = "sample_battle [JStr ''alice'', JStr ''bob''] [JStr ''carol'']"
  let ?start = "projr (battle_call ?b [])"
  let ?evs = \<open>[Msg A (userdetails_reply ''{"name":"alice","rooms":{}}'')]\<close>
  let ?now = "battle_run sample_parse (JStr ''botA'') (JStr ''botB'') ?start ?evs"
  have c: "battle_call ?b [] = Inr ?start" by code_simp
  have st: "stage ?now = AwaitPlayers" by code_simp
  have ud: \<open>userdetails_of sample_parse (userdetails_reply ''{"name":"bob","rooms":{}}'')
        = Some (JObj [(''name'', JStr ''bob''), (''rooms'', JObj [])])\<close> by code_simp
  have us: "usernames (side1 (spec ?start)) = [JStr ''alice'', JStr ''bob'']" by code_simp
  have tr: "js_truthy (confirmed (side1 (spec ?now)))" by code_simp
  note t = confirmed_is_candidate [OF c refl, of sample_parse "JStr ''botA''" "JStr ''botB''" ?evs]
  from t tr us have m: "confirmed (side1 (spec ?now)) \<in> set [JStr ''alice'', JStr ''bob'']" by simp
  from t have "\<forall>msgraw kvs s rooms.
             stage ?now = AwaitPlayers \<and> userdetails_of sample_parse msgraw = Some (JObj kvs)
             \<and> map_of kvs ''name'' = Some (JStr s) \<and> s \<noteq> []
             \<and> map_of kvs ''rooms'' = Some rooms \<and> js_truthy rooms
             \<longrightarrow> (JStr s \<in> set (usernames (side1 (spec ?now)))
                    \<longrightarrow> confirmed (side1 (spec (battle_step sample_parse (JStr ''botA'') (JStr ''botB'') ?now (Msg A msgraw))))
                          = JStr s)" by blast
  from this [rule_format, of \<open>userdetails_reply ''{"name":"bob","rooms":{}}''\<close>
      "[(''name'', JStr ''bob''), (''rooms'', JObj [])]" "''bob''" "JObj []"] st ud t us
  have n: \<open>confirmed (side1 (spec (battle_step sample_parse (JStr ''botA'') (JStr ''botB'') ?now
        (Msg A (userdetails_reply ''{"name":"bob","rooms":{}}''))))) = JStr ''bob''\<close>
    by simp
  have c': "battle_call ?b [] \<noteq> Inl TypeError" by code_simp
  show ?thesis by (intro conjI) (fact c' st ud m n)+
qed

text \<open>
  C1 as stated fails when two candidates of one side are online: the second reply
  replaces the first binding.
\<close>

theorem confirmed_rebound_counterexample:
  \<open>\<not> isl (battle_call (sample_battle [JStr ''alice'', JStr ''bob''] [JStr ''carol'']) [])
   \<and> confirmed (side1 (spec (battle_run sample_parse (JStr ''botA'') (JStr ''botB'')
        (projr (battle_call (sample_battle [JStr ''alice'', JStr ''bob''] [JStr ''carol'']) []))
        [Msg A (userdetails_reply ''{"name":"alice","rooms":{}}'')]))) = JStr ''alice''
   \<and> confirmed (side1 (spec (battle_run sample_parse (JStr ''botA'') (JStr ''botB'')
        (projr (battle_call (sample_battle [JStr ''alice'', JStr ''bob''] [JStr ''carol'']) []))
        [Msg A (userdetails_reply ''{"name":"alice","rooms":{}}''),
         Msg A (userdetails_reply ''{"name":"bob","rooms":{}}'')]))) = JStr ''bob''\<close>
  by code_simp

lemma idle_step: "stage r = Idle \<Longrightarrow> battle_step parse a b r ev = r"
  by (cases ev) (simp_all add: timeout_rejects reject_run_def)

lemma idle_run: "stage r = Idle \<Longrightarrow> battle_run parse a b r evs = r"
  unfolding battle_run_def by (induction evs) (simp_all add: idle_step)

lemma stage_then [simp]:
  "stage (then_players b r) = AwaitChallenge" "stage (then_challenge a r) = AwaitInit"
  "stage (then_init m r) = AwaitWin (room_of m)" "stage (then_win room1 r) = AwaitReplay room1"
  "stage (then_replay room1 m r) = Idle" "stage (reject_run e r) = Idle"
  by (simp_all add: then_players_def then_challenge_def then_init_def then_win_def
      then_replay_def reject_run_def send_def Let_def split: stage.splits)

lemma players_only_from_players:
  assumes "stage (battle_step parse a b r ev) = AwaitPlayers"
  shows "stage r = AwaitPlayers \<and> sent (battle_step parse a b r ev) = sent r"
proof (cases ev)
  case (Timeout k)
  with assms show ?thesis by (auto simp: timeout_rejects split: if_splits)
next
  case (Msg c m)
  show ?thesis
  proof (cases "listens_on (stage r) = Some c")
    case False
    with assms Msg show ?thesis by simp
  next
    case True
    with assms Msg have o: "stage (on_frame parse a b m r) = AwaitPlayers" by simp
    have "stage r = AwaitPlayers \<and> sent (on_frame parse a b m r) = sent r"
    proof (cases "stage r")
      case AwaitPlayers
      with o await_on_cases [of "pred_players parse" m "spec r"] show ?thesis
        by (auto simp: on_frame_def)
    next
      case AwaitChallenge
      with o await_on_cases [of "pred_challenge a b" m "()"] show ?thesis
        by (auto simp: on_frame_def)
    next
      case AwaitInit
      with o await_on_cases [of pred_init m "()"] show ?thesis
        by (auto simp: on_frame_def)
    next
      case (AwaitWin room1)
      with o await_on_cases [of pred_win m "()"] show ?thesis
        by (auto simp: on_frame_def)
    next
      case (AwaitReplay room1)
      with o await_on_cases [of "pred_replay room1" m "()"] show ?thesis
        by (auto simp: on_frame_def)
    next
      case Idle
      with o show ?thesis by (simp add: on_frame_def)
    qed
    with True Msg show ?thesis by simp
  qed
qed

lemma players_run_sent:
  "stage (battle_run parse a b r evs) = AwaitPlayers \<Longrightarrow>
     stage r = AwaitPlayers \<and> sent (battle_run parse a b r evs) = sent r"
proof (induction evs rule: rev_induct)
  case Nil
  then show ?case by (simp add: battle_run_def)
next
  case (snoc ev evs)
  from snoc.prems have "stage (battle_step parse a b (battle_run parse a b r evs) ev) = AwaitPlayers"
    by (simp add: battle_run_def)
  from players_only_from_players [OF this] snoc.IH show ?case
    by (simp add: battle_run_def)
qed

lemma offline_step:
  assumes "stage r = AwaitPlayers"
    and "userdetails_of parse msgraw = Some (JObj kvs)"
    and "map_of kvs ''name'' = Some (JStr s)" and "s \<noteq> []"
    and "case map_of kvs ''rooms'' of None \<Rightarrow> True | Some rooms \<Rightarrow> \<not> js_truthy rooms"
    and "JStr s \<in> set (usernames (side1 (spec r))) \<union> set (usernames (side2 (spec r)))"
  shows "battle_step parse a b r (Msg A msgraw)
           = r\<lparr>room := Failed (Reason (''User is offline: '' @ s) msgraw), stage := Idle\<rparr>"
proof -
  have "pred_players parse (spec r) msgraw
          = (Returned (JStr (''User is offline: '' @ s)), spec r)"
    by (rule pred_players_offline [OF assms(2-6)])
  then have "await_on (pred_players parse) msgraw (spec r)
          = (Some (Rejected (Reason (''User is offline: '' @ s) msgraw)), spec r)"
    by (rule await_on_string [of "pred_players parse"])
  with assms(1) show ?thesis
    by (simp add: on_frame_def reject_run_def)
qed

lemma userdetails_not_challenge: "\<not> is_challenge (snd (userdetails u))"
  by (simp add: is_challenge_def starts_with_def userdetails_def msgToRaw_def)

text \<open>
  C7, as the code has it.  When a reply that reports a candidate without truthy
  \<^verbatim>\<open>rooms\<close> arrives while the first wait is still listening, the promise of
  \<^verbatim>\<open>battle\<close> is rejected with "User is offline: " and the name, and whatever happens
  later no challenge command is among the frames the run has sent.
\<close>

theorem offline_reply_rejects:
  assumes "battle_call b wire = Inr r0" and "r = battle_run parse nameA nameB r0 evs"
    and "stage r = AwaitPlayers"
    and "userdetails_of parse msgraw = Some (JObj kvs)"
    and "map_of kvs ''name'' = Some (JStr s)" and "s \<noteq> []"
    and "case map_of kvs ''rooms'' of None \<Rightarrow> True | Some rooms \<Rightarrow> \<not> js_truthy rooms"
    and "JStr s \<in> set (usernames (side1 (spec r))) \<union> set (usernames (side2 (spec r)))"
    and "r' = battle_run parse nameA nameB (battle_step parse nameA nameB r (Msg A msgraw)) later"
  shows "room r' = Failed (Reason (''User is offline: '' @ s) msgraw)
       \<and> (\<forall>x\<in>set (drop (length wire) (sent r')). \<not> is_challenge (snd x))"
proof -
  from offline_step [OF assms(3-8)]
  have step: "battle_step parse nameA nameB r (Msg A msgraw)
           = r\<lparr>room := Failed (Reason (''User is offline: '' @ s) msgraw), stage := Idle\<rparr>" .
  with assms(9) have r': "r' = r\<lparr>room := Failed (Reason (''User is offline: '' @ s) msgraw), stage := Idle\<rparr>"
    by (simp add: idle_run)
  from players_run_sent [of parse nameA nameB r0 evs] assms(2,3) have "sent r = sent r0" by simp
  with battle_call_start(4) [OF assms(1)] r'
  have "drop (length wire) (sent r') = map userdetails (usernames (side1 (spec r0)))
                    @ map userdetails (usernames (side2 (spec r0)))" by simp
  with r' show ?thesis by (auto simp: userdetails_not_challenge)
qed

theorem offline_reply_rejects_witness:
  \<open>stage (battle_run sample_parse (JStr ''botA'') (JStr ''botB'')
        (projr (battle_call (sample_battle [JStr ''alice''] [JStr ''carol'', JStr ''dave'']) []))
        [Msg A (userdetails_reply ''{"name":"alice","rooms":{}}'')]) = AwaitPlayers
   \<and> userdetails_of sample_parse (userdetails_reply ''{"name":"dave","rooms":false}'')
        = Some (JObj [(''name'', JStr ''dave''), (''rooms'', JBool False)])
   \<and> room (battle_run sample_parse (JStr ''botA'') (JStr ''botB'')
        (battle_step sample_parse (JStr ''botA'') (JStr ''botB'')
          (battle_run sample_parse (JStr ''botA'') (JStr ''botB'')
            (projr (battle_call (sample_battle [JStr ''alice''] [JStr ''carol'', JStr ''dave'']) []))
            [Msg A (userdetails_reply ''{"name":"alice","rooms":{}}'')])
          (Msg A (userdetails_reply ''{"name":"dave","rooms":false}'')))
        [Msg A (userdetails_reply ''{"name":"carol","rooms":{}}''), Timeout 1])
       = Failed (Reason ''User is offline: dave'' (userdetails_reply ''{"name":"dave","rooms":false}''))\<close>
proof -
  let ?b = "sample_battle [JStr ''alice''] [JStr ''carol'', JStr ''dave'']"
  let ?start = "projr (battle_call ?b [])"
  let ?evs = \<open>[Msg A (userdetails_reply ''{"name":"alice","rooms":{}}'')]\<close>
  let ?now = "battle_run sample_parse (JStr ''botA'') (JStr ''botB'') ?start ?evs"
  let ?m = \<open>userdetails_reply ''{"name":"dave","rooms":false}''\<close>
  let ?later = \<open>[Msg A (userdetails_reply ''{"name":"carol","rooms":{}}''), Timeout 1]\<close>
  have c: "battle_call ?b [] = Inr ?start" by code_simp
  have st: "stage ?now = AwaitPlayers" by code_simp
  have ud: "userdetails_of sample_parse ?m
        = Some (JObj [(''name'', JStr ''dave''), (''rooms'', JBool False)])" by code_simp
  have nm: "map_of [(''name'', JStr ''dave''), (''rooms'', JBool False)] ''name'' = Some (JStr ''dave'')"
    by simp
  have ne: "''dave'' \<noteq> []" by simp
  have rm: "case map_of [(''name'', JStr ''dave''), (''rooms'', JBool False)] ''rooms'' of
              None \<Rightarrow> True | Some rooms \<Rightarrow> \<not> js_truthy rooms" by simp
  have us: "JStr ''dave'' \<in> set (usernames (side1 (spec ?now))) \<union> set (usernames (side2 (spec ?now)))"
    by code_simp
  from offline_reply_rejects [OF c refl st ud nm ne rm us refl, of ?later]
  have "room (battle_run sample_parse (JStr ''botA'') (JStr ''botB'')
          (battle_step sample_parse (JStr ''botA'') (JStr ''botB'') ?now (Msg A ?m)) ?later)
        = Failed (Reason (''User is offline: '' @ ''dave'') ?m)" by blast
  then have rj: "room (battle_run sample_parse (JStr ''botA'') (JStr ''botB'')
          (battle_step sample_parse (JStr ''botA'') (JStr ''botB'') ?now (Msg A ?m)) ?later)
        = Failed (Reason ''User is offline: dave'' ?m)" by simp
  show ?thesis by (intro conjI) (fact st ud rj)+
qed

text \<open>
  C7 as stated fails for a reply that arrives after both sides are confirmed: the
  second candidate of side 2 is offline, its reply comes last, the promise is not rejected
  and the challenge has been sent.
\<close>

theorem late_offline_reply_counterexample:
  \<open>\<not> isl (battle_call (sample_battle [JStr ''alice''] [JStr ''carol'', JStr ''dave'']) [])
   \<and> userdetails_of sample_parse (userdetails_reply ''{"name":"dave","rooms":false}'')
        = Some (JObj [(''name'', JStr ''dave''), (''rooms'', JBool False)])
   \<and> room (battle_run sample_parse (JStr ''botA'') (JStr ''botB'')
        (projr (battle_call (sample_battle [JStr ''alice''] [JStr ''carol'', JStr ''dave'']) []))
        [Msg A (userdetails_reply ''{"name":"alice","rooms":{}}''),
         Msg A (userdetails_reply ''{"name":"carol","rooms":{}}''),
         Msg A (userdetails_reply ''{"name":"dave","rooms":false}'')]) = Pending
   \<and> (A, ''["|/challenge botB, gen9ou"]'') \<in> set (sent (battle_run sample_parse (JStr ''botA'') (JStr ''botB'')
        (projr (battle_call (sample_battle [JStr ''alice''] [JStr ''carol'', JStr ''dave'']) []))
        [Msg A (userdetails_reply ''{"name":"alice","rooms":{}}''),
         Msg A (userdetails_reply ''{"name":"carol","rooms":{}}''),
         Msg A (userdetails_reply ''{"name":"dave","rooms":false}'')]))
   \<and> is_challenge ''["|/challenge botB, gen9ou"]''\<close>
  by code_simp

section \<open>The room URL and the replay\<close>

lemma slice_frame:
  "length pre = 3 \<Longrightarrow> length suf = 2 \<Longrightarrow> js_slice (pre @ m @ suf) 3 (- 2) = m"
  by (simp add: js_slice_def Let_def)

lemma split_bsn_cons:
  "backslash \<notin> set x \<Longrightarrow>
     js_split_aux bsn acc (x @ bsn @ rest) = (acc @ x) # js_split_aux bsn [] rest"
proof (induction x arbitrary: acc)
  case Nil
  show ?case by (simp add: bsn_def)
next
  case (Cons c x)
  then show ?case by (simp add: bsn_def backslash_def)
qed

lemma split_bsn_end:
  "backslash \<notin> set x \<Longrightarrow> js_split_aux bsn acc x = [acc @ x]"
proof (induction x arbitrary: acc)
  case Nil
  show ?case by simp
next
  case (Cons c x)
  then show ?case by (simp add: bsn_def backslash_def)
qed

lemma init_frame_parts:
  assumes "backslash \<notin> set R" and "tail = [] \<or> (\<exists>t. tail = bsn @ t)"
  shows "\<exists>others. js_split bsn (''>'' @ R @ bsn @ ''|init|battle'' @ tail)
           = (''>'' @ R) # ''|init|battle'' # others"
proof -
  have "backslash \<notin> set (''>'' @ R)" using assms(1) by (simp add: backslash_def)
  from split_bsn_cons [OF this, of "[]" "''|init|battle'' @ tail"]
  have 1: "js_split bsn (''>'' @ R @ bsn @ ''|init|battle'' @ tail)
        = (''>'' @ R) # js_split_aux bsn [] (''|init|battle'' @ tail)"
    by (simp add: js_split_def)
  have nb: "backslash \<notin> set ''|init|battle''" by (simp add: backslash_def)
  from assms(2) have "\<exists>others. js_split_aux bsn [] (''|init|battle'' @ tail) = ''|init|battle'' # others"
  proof
    assume "tail = []"
    with split_bsn_end [OF nb, of "[]"] show ?thesis by simp
  next
    assume "\<exists>t. tail = bsn @ t"
    then obtain t where "tail = bsn @ t" ..
    with split_bsn_cons [OF nb, of "[]" t] show ?thesis by simp
  qed
  with 1 show ?thesis by auto
qed

lemma init_frame_matches:
  assumes "msgraw = pre @ ''>'' @ R @ bsn @ ''|init|battle'' @ tail @ suf"
    and "length pre = 3" and "length suf = 2"
    and "backslash \<notin> set R" and "tail = [] \<or> (\<exists>t. tail = bsn @ t)"
  shows "pred_init st msgraw = (Returned (JBool True), st)" and "room_of msgraw = R"
proof -
  from slice_frame [OF assms(2,3), of "''>'' @ R @ bsn @ ''|init|battle'' @ tail"] assms(1)
  have s: "js_slice msgraw 3 (- 2) = ''>'' @ R @ bsn @ ''|init|battle'' @ tail" by simp
  from init_frame_parts [OF assms(4,5)] obtain others where
    p: "js_split bsn (''>'' @ R @ bsn @ ''|init|battle'' @ tail) = (''>'' @ R) # ''|init|battle'' # others"
    by blast
  have d: "js_split ''|'' ''|init|battle'' = ['''', ''init'', ''battle'']"
    by (simp add: js_split_def)
  from s p d show "pred_init st msgraw = (Returned (JBool True), st)"
    by (simp add: pred_init_def Let_def item_at_def)
  from s p show "room_of msgraw = R"
    by (simp add: room_of_def item_at_def js_slice_from_def js_slice_def Let_def)
qed

lemma started_step:
  assumes "started (stage r)"
  shows "started (stage (battle_step parse a b r ev)) \<and> room (battle_step parse a b r ev) = room r"
proof (cases ev)
  case (Timeout k)
  with assms show ?thesis
    by (auto simp: timeout_rejects started_def reject_run_def split: stage.splits)
next
  case (Msg c m)
  show ?thesis
  proof (cases "stage r")
    case (AwaitWin room1)
    with Msg await_on_cases [of pred_win m "()"] show ?thesis
      by (auto simp: on_frame_def started_def then_win_def send_def reject_run_def)
  next
    case (AwaitReplay room1)
    with Msg await_on_cases [of "pred_replay room1" m "()"] show ?thesis
      by (auto simp: on_frame_def started_def then_replay_def send_def reject_run_def)
  next
    case Idle
    with Msg show ?thesis by (simp add: started_def)
  qed (use assms in \<open>simp_all add: started_def\<close>)
qed

lemma started_run:
  "started (stage r) \<Longrightarrow> room (battle_run parse a b r evs) = room r"
  unfolding battle_run_def
proof (induction evs arbitrary: r)
  case Nil
  show ?case by simp
next
  case (Cons ev evs)
  from started_step [OF Cons.prems, of parse a b ev] Cons.IH [of "battle_step parse a b r ev"]
  show ?case by simp
qed

text \<open>
  C8.  While the third wait is listening, a frame on connection A whose first line is
  \<^verbatim>\<open>>\<close> and the room identifier \<open>R\<close> and whose second line is \<^verbatim>\<open>|init|battle\<close>
  fulfils the promise of \<^verbatim>\<open>battle\<close> with \<^verbatim>\<open>https://play.pokemonshowdown.com/\<close>
  followed by \<open>R\<close>, in the same step; the replay promise exists and is pending, with
  its own wait listening, and nothing that happens to it later changes the room URL.
\<close>

theorem init_resolves_with_room_url:
  assumes "stage r = AwaitInit"
    and "msgraw = pre @ ''>'' @ R @ bsn @ ''|init|battle'' @ tail @ suf"
    and "length pre = 3" and "length suf = 2"
    and "backslash \<notin> set R" and "tail = [] \<or> (\<exists>t. tail = bsn @ t)"
    and "r' = battle_step parse nameA nameB r (Msg A msgraw)"
  shows "room r' = Fulfilled (''https://play.pokemonshowdown.com/'' @ R)
       \<and> replay r' = Some Pending
       \<and> stage r' = AwaitWin R
       \<and> room (battle_run parse nameA nameB r' later)
           = Fulfilled (''https://play.pokemonshowdown.com/'' @ R)"
proof -
  from init_frame_matches [OF assms(2-6)]
  have "pred_init () msgraw = (Returned (JBool True), ())" and R: "room_of msgraw = R" by simp_all
  then have "await_on pred_init msgraw () = (Some (Resolved msgraw), ())"
    by (simp add: await_on_true)
  with assms(1,7) have r': "r' = then_init msgraw r" by (simp add: on_frame_def)
  with R have 1: "room r' = Fulfilled (''https://play.pokemonshowdown.com/'' @ R)"
    and 2: "replay r' = Some Pending" and 3: "stage r' = AwaitWin R"
    by (simp_all add: then_init_def Let_def base_url_def)
  from 3 have "started (stage r')" by (simp add: started_def)
  from started_run [OF this, of parse nameA nameB later] 1
  have "room (battle_run parse nameA nameB r' later)
           = Fulfilled (''https://play.pokemonshowdown.com/'' @ R)" by simp
  with 1 2 3 show ?thesis by simp
qed

theorem init_resolves_with_room_url_witness:
  \<open>stage (battle_run sample_parse (JStr ''botA'') (JStr ''botB'')
       (projr (battle_call (sample_battle [JStr ''alice''] [JStr ''carol'']) [])) sample_events)
     = AwaitInit
   \<and> sample_init = ''a["'' @ ''>'' @ ''battle-x-1'' @ bsn @ ''|init|battle''
                      @ (bsn @ ''|title|botA vs. botB'') @ ''"]''
   \<and> room (battle_step sample_parse (JStr ''botA'') (JStr ''botB'')
        (battle_run sample_parse (JStr ''botA'') (JStr ''botB'')
          (projr (battle_call (sample_battle [JStr ''alice''] [JStr ''carol'']) [])) sample_events)
        (Msg A sample_init))
     = Fulfilled ''https://play.pokemonshowdown.com/battle-x-1''
   \<and> replay (battle_step sample_parse (JStr ''botA'') (JStr ''botB'')
        (battle_run sample_parse (JStr ''botA'') (JStr ''botB'')
          (projr (battle_call (sample_battle [JStr ''alice''] [JStr ''carol'']) [])) sample_events)
        (Msg A sample_init))
     = Some Pending\<close>
proof -
  let ?now = "battle_run sample_parse (JStr ''botA'') (JStr ''botB'')
       (projr (battle_call (sample_battle [JStr ''alice''] [JStr ''carol'']) [])) sample_events"
  have st: "stage ?now = AwaitInit" by code_simp
  have sh: \<open>sample_init = ''a["'' @ ''>'' @ ''battle-x-1'' @ bsn @ ''|init|battle''
                      @ (bsn @ ''|title|botA vs. botB'') @ ''"]''\<close> by code_simp
  have l1: \<open>length ''a["'' = 3\<close> and l2: \<open>length ''"]'' = 2\<close> by simp_all
  have nb: "backslash \<notin> set ''battle-x-1''" by (simp add: backslash_def)
  have tl: "bsn @ ''|title|botA vs. botB'' = [] \<or> (\<exists>t. bsn @ ''|title|botA vs. botB'' = bsn @ t)"
    by blast
  from init_resolves_with_room_url [OF st sh l1 l2 nb tl refl, of sample_parse "JStr ''botA''" "JStr ''botB''" "[]"]
  have \<open>room (battle_step sample_parse (JStr ''botA'') (JStr ''botB'') ?now (Msg A sample_init))
          = Fulfilled (''https://play.pokemonshowdown.com/'' @ ''battle-x-1'')\<close>
    and rp: \<open>replay (battle_step sample_parse (JStr ''botA'') (JStr ''botB'') ?now (Msg A sample_init))
          = Some Pending\<close> by blast+
  then have rm: \<open>room (battle_step sample_parse (JStr ''botA'') (JStr ''botB'') ?now (Msg A sample_init))
          = Fulfilled ''https://play.pokemonshowdown.com/battle-x-1''\<close> by simp
  show ?thesis by (intro conjI) (fact st sh rm rp)+
qed

lemma replay_rx_matches: "rx_test (replay_rx room1) msg"
  by (cases msg) (simp_all add: rx_test_def rx_exec_def replay_rx_def)

text \<open>
  C2 at the failing input.  The pattern of the last wait is an alternation whose first
  branch is \<^verbatim>\<open>^\<close>, so its predicate returns \<^verbatim>\<open>true\<close> on every frame: after
  \<^verbatim>\<open>/savereplay\<close> the first frame on connection A, here a private message, settles
  the replay promise, with the fallback text since it holds no \<^verbatim>\<open>href\<close>.  The link
  pattern finds the link in the notice as a protocol line, and not in the notice as it is
  framed, where the quotes are escaped.
\<close>

theorem replay_wait_takes_any_frame:
  \<open>pred_replay room1 st msgraw = (Returned (JBool True), st)
   \<and> stage (battle_run sample_parse (JStr ''botA'') (JStr ''botB'')
        (projr (battle_call (sample_battle [JStr ''alice''] [JStr ''carol'']) []))
        (sample_events @ [Msg A sample_init, Msg A sample_win]))
      = AwaitReplay ''battle-x-1''
   \<and> replay (battle_run sample_parse (JStr ''botA'') (JStr ''botB'')
        (projr (battle_call (sample_battle [JStr ''alice''] [JStr ''carol'']) []))
        (sample_events @ [Msg A sample_init, Msg A sample_win,
                          Msg A (sockjs_frame ''|pm| alice| botA|hi'')]))
      = Some (Fulfilled ''this should not have happened'')
   \<and> href_of sample_notice = ''https://replay.pokemonshowdown.com/battle-x-1''
   \<and> href_of (sockjs_frame sample_notice) = ''this should not have happened''\<close>
proof (intro conjI)
  show "pred_replay room1 st msgraw = (Returned (JBool True), st)"
    by (simp add: pred_replay_def replay_rx_matches)
qed code_simp+

section \<open>A refused login\<close>

lemma sample_connect:
  "connect_call sample_rnd (projr (constructor sample_auth)) = sample_connecting"
  by code_simp

lemma open_all_length: "length (open_all rnd k xs) = length xs"
  by (induction xs arbitrary: k) (auto split: prod.splits)

lemma open_all_opened: "list_all opened (open_all rnd k xs)"
  by (induction xs arbitrary: k) (auto simp: opened_def split: prod.splits)

lemma wired_connect_call: "wired (connect_call rnd p)"
  by (simp add: wired_def connect_call_def open_all_length open_all_opened)

lemma list_all_update:
  assumes "list_all P xs" and "i < length xs \<Longrightarrow> P y"
  shows "list_all P (xs[i := y])"
proof (cases "i < length xs")
  case True
  with assms(2) have "P y" .
  with assms(1) set_update_subset_insert [of xs i y] show ?thesis
    by (auto simp: list_all_iff)
next
  case False
  then have "xs[i := y] = xs" by (simp add: list_update_beyond)
  with assms(1) show ?thesis by (simp only:)
qed

lemma shutdown_wired:
  assumes "list_all opened (bots p)"
  shows "aborted (shutdown p)" and "list_all opened (bots (shutdown p))"
    and "length (bots (shutdown p)) = length (bots p)"
proof -
  from assms have no: "\<not> list_ex (\<lambda>x. ws x = None) (bots p)"
    by (auto simp: list_all_iff list_ex_iff opened_def)
  show "aborted (shutdown p)" using no by (simp add: shutdown_def)
  show "list_all opened (bots (shutdown p))" using assms
    by (auto simp: shutdown_def opened_def list_all_iff)
  show "length (bots (shutdown p)) = length (bots p)"
    by (simp add: shutdown_def)
qed

lemma break_chain_wired: "wired c \<Longrightarrow> wired (break_chain i e c)"
  using shutdown_wired [of "ps c"] by (simp add: wired_def break_chain_def)

lemma logged_in_wired:
  assumes "list_all opened (bots p)"
  shows "list_all opened (bots (logged_in i v p))"
    and "length (bots (logged_in i v p)) = length (bots p)"
proof -
  show "length (bots (logged_in i v p)) = length (bots p)" by (simp add: logged_in_def)
  have o: "i < length (bots p) \<Longrightarrow> opened ((bots p ! i)\<lparr>ws := map_option f (ws (bots p ! i))\<rparr>)" for f
    using assms by (simp add: opened_def list_all_length)
  show "list_all opened (bots (logged_in i v p))"
    unfolding logged_in_def by simp (rule list_all_update [OF assms], erule o)
qed

lemma on_response_wired: "wired c \<Longrightarrow> wired (on_response parse i resp c)"
proof -
  assume w: "wired c"
  then have a: "list_all opened (bots (ps c))" by (simp add: wired_def)
  have "wired (c\<lparr>ps := logged_in i v (ps c), chains := (chains c)[i := Connected]\<rparr>)" for v
    using w logged_in_wired [OF a, of i v] by (simp add: wired_def)
  with w show ?thesis
    by (auto simp: on_response_def break_chain_wired split: response.splits option.splits sum.splits)
qed

lemma connect_step_wired: "wired c \<Longrightarrow> wired (connect_step parse c ev)"
proof (cases ev)
  case (CMsg i m)
  assume w: "wired c"
  have "wired (c\<lparr>chains := (chains c)[i := x]\<rparr>)" for x using w by (simp add: wired_def)
  with w CMsg show ?thesis
    by (auto simp: break_chain_wired split: prod.splits option.splits settled.splits)
next
  case (CTimeout i)
  assume "wired c"
  with CTimeout show ?thesis
    by (auto simp: break_chain_wired split: option.splits settled.splits)
next
  case (CHttp i resp)
  assume "wired c"
  with CHttp show ?thesis by (simp add: on_response_wired)
next
  case (CError i)
  assume w: "wired c"
  with shutdown_wired [of "ps c"] CError show ?thesis by (simp add: wired_def)
qed

lemma connect_run_wired: "wired c \<Longrightarrow> wired (connect_run parse c evs)"
  unfolding connect_run_def
  by (induction evs arbitrary: c) (simp_all add: connect_step_wired)

lemma login_check_refused:
  assumes "map_of kvs ''curuser'' = Some (JObj cu)" and "map_of kvs ''assertion'' = Some (JStr a)"
    and "login_refused kvs cu a"
  shows "login_check n (JObj kvs) = Inl (CouldNotLogin n (JStr a))"
  using assms by (auto simp: login_check_def login_refused_def split: option.splits)

lemma break_chain_facts:
  assumes "wired c" and "i < length (chains c)"
  shows "aborted (ps (break_chain i e c))"
    and "chains (break_chain i e c) ! i = Broken e"
    and "j \<noteq> i \<Longrightarrow> chains (break_chain i e c) ! j = chains c ! j"
    and "connect_result (break_chain i e c)
           = Some (Inl (case first_failure c of None \<Rightarrow> e | Some e' \<Rightarrow> e'))"
  using assms shutdown_wired [of "ps c"]
  by (auto simp: break_chain_def wired_def connect_result_def split: option.splits)

text \<open>
  C3, as the code has it.  After \<^verbatim>\<open>connect()\<close>, when the login response of a bot
  is refused (\<^verbatim>\<open>actionsuccess\<close> falsy, \<^verbatim>\<open>curuser.loggedin\<close> falsy, or the
  assertion starting with \<^verbatim>\<open>;;\<close>), that bot's chain rejects with the login error,
  \<^verbatim>\<open>connect()\<close> is rejected (with that error unless it had been rejected before)
  and the shared signal is aborted.  The wait of another bot that is pending is not
  rejected by that: it is still pending afterwards.
\<close>

theorem refused_login_rejects_connect:
  assumes "c = connect_run parse (connect_call rnd p) evs"
    and "i < length (chains c)" and "chains c ! i = Fetching challstr"
    and "parse (js_slice_from body 1) = Some (JObj kvs)"
    and "map_of kvs ''curuser'' = Some (JObj cu)" and "map_of kvs ''assertion'' = Some (JStr a)"
    and "login_refused kvs cu a"
    and "c' = connect_step parse c (CHttp i (Http True body))"
  shows "chains c' ! i = Broken (CouldNotLogin (bot_name (bots (ps c) ! i)) (JStr a))
       \<and> connect_result c'
           = Some (Inl (case first_failure c of
                          None \<Rightarrow> CouldNotLogin (bot_name (bots (ps c) ! i)) (JStr a)
                        | Some e \<Rightarrow> e))
       \<and> aborted (ps c')
       \<and> (\<forall>j. j \<noteq> i \<and> chains c ! j = AwaitChallstr \<longrightarrow> chains c' ! j = AwaitChallstr)"
proof -
  let ?e = "CouldNotLogin (bot_name (bots (ps c) ! i)) (JStr a)"
  from wired_connect_call [of rnd p] assms(1)
  have w: "wired c" by (simp add: connect_run_wired)
  from login_check_refused [OF assms(5,6,7), of "bot_name (bots (ps c) ! i)"] assms(2,3,4,8)
  have c': "c' = break_chain i ?e c" by (simp add: on_response_def)
  note f = break_chain_facts [OF w assms(2), where e = ?e]
  from f(2) c' have 1: "chains c' ! i = Broken ?e" by simp
  from f(4) c' have 2: "connect_result c'
           = Some (Inl (case first_failure c of None \<Rightarrow> ?e | Some e \<Rightarrow> e))" by simp
  from f(1) c' have 3: "aborted (ps c')" by simp
  have 4: "chains c' ! j = AwaitChallstr" if "j \<noteq> i" "chains c ! j = AwaitChallstr" for j
    using f(3) [of j] that c' by simp
  from 1 2 3 4 show ?thesis by blast
qed

theorem refused_login_rejects_connect_witness:
  \<open>chains (connect_run sample_parse (connect_call sample_rnd (projr (constructor sample_auth)))
             [CMsg 0 sample_challstr]) ! 0 = Fetching ''4|0123abcd''
   \<and> login_refused
        [(''actionsuccess'', JBool False), (''assertion'', JStr '';;Wrong password.''),
         (''curuser'', JObj [(''loggedin'', JBool False)])]
        [(''loggedin'', JBool False)] '';;Wrong password.''
   \<and> chains (connect_step sample_parse
        (connect_run sample_parse (connect_call sample_rnd (projr (constructor sample_auth)))
           [CMsg 0 sample_challstr])
        (CHttp 0 (Http True sample_refusal))) ! 0
       = Broken (CouldNotLogin (JStr ''botA'') (JStr '';;Wrong password.''))
   \<and> connect_result (connect_step sample_parse
        (connect_run sample_parse (connect_call sample_rnd (projr (constructor sample_auth)))
           [CMsg 0 sample_challstr])
        (CHttp 0 (Http True sample_refusal)))
       = Some (Inl (CouldNotLogin (JStr ''botA'') (JStr '';;Wrong password.'')))
   \<and> aborted (ps (connect_step sample_parse
        (connect_run sample_parse (connect_call sample_rnd (projr (constructor sample_auth)))
           [CMsg 0 sample_challstr])
        (CHttp 0 (Http True sample_refusal))))
   \<and> chains (connect_step sample_parse
        (connect_run sample_parse (connect_call sample_rnd (projr (constructor sample_auth)))
           [CMsg 0 sample_challstr])
        (CHttp 0 (Http True sample_refusal))) ! 1
       = AwaitChallstr\<close>
proof -
  let ?p = "projr (constructor sample_auth)"
  let ?c = "connect_run sample_parse (connect_call sample_rnd ?p) [CMsg 0 sample_challstr]"
  let ?kvs = "[(''actionsuccess'', JBool False), (''assertion'', JStr '';;Wrong password.''),
               (''curuser'', JObj [(''loggedin'', JBool False)])]"
  let ?cu = "[(''loggedin'', JBool False)]"
  let ?next = "connect_step sample_parse ?c (CHttp 0 (Http True sample_refusal))"
  have i: "0 < length (chains ?c)" by (simp only: sample_connect) code_simp
  have f: "chains ?c ! 0 = Fetching ''4|0123abcd''" by (simp only: sample_connect) code_simp
  have b: "sample_parse (js_slice_from sample_refusal 1) = Some (JObj ?kvs)" by code_simp
  have u: "map_of ?kvs ''curuser'' = Some (JObj ?cu)" by simp
  have a: "map_of ?kvs ''assertion'' = Some (JStr '';;Wrong password.'')" by simp
  have l: "login_refused ?kvs ?cu '';;Wrong password.''" by (simp add: login_refused_def)
  have n: "bot_name (bots (ps ?c) ! 0) = JStr ''botA''" by (simp only: sample_connect) code_simp
  have ff: "first_failure ?c = None" by (simp only: sample_connect) code_simp
  have s: "(1::nat) \<noteq> 0 \<and> chains ?c ! 1 = AwaitChallstr"
    by (simp only: sample_connect) code_simp
  note t = refused_login_rejects_connect [OF refl i f b u a l refl]
  from t n have 1: "chains ?next ! 0
       = Broken (CouldNotLogin (JStr ''botA'') (JStr '';;Wrong password.''))" by simp
  from t n ff have 2: "connect_result ?next
       = Some (Inl (CouldNotLogin (JStr ''botA'') (JStr '';;Wrong password.'')))" by simp
  from t have 3: "aborted (ps ?next)" by simp
  from t have "\<forall>j. j \<noteq> 0 \<and> chains ?c ! j = AwaitChallstr \<longrightarrow> chains ?next ! j = AwaitChallstr"
    by blast
  with s have 4: "chains ?next ! 1 = AwaitChallstr" by blast
  show ?thesis by (intro conjI) (fact f l 1 2 3 4)+
qed

text \<open>
  C3 as stated fails in its last part: after the refused login of the first bot has
  aborted the shared signal, the wait of the second bot is still pending, and it is
  still pending after a further frame and a socket error.
\<close>

theorem sibling_wait_survives_abort_counterexample:
  \<open>aborted (ps (connect_run sample_parse (connect_call sample_rnd (projr (constructor sample_auth)))
        [CMsg 0 sample_challstr, CHttp 0 (Http True sample_refusal)]))
   \<and> connect_result (connect_run sample_parse (connect_call sample_rnd (projr (constructor sample_auth)))
        [CMsg 0 sample_challstr, CHttp 0 (Http True sample_refusal)])
       = Some (Inl (CouldNotLogin (JStr ''botA'') (JStr '';;Wrong password.'')))
   \<and> chains (connect_run sample_parse (connect_call sample_rnd (projr (constructor sample_auth)))
        []) ! 1 = AwaitChallstr
   \<and> chains (connect_run sample_parse (connect_call sample_rnd (projr (constructor sample_auth)))
        [CMsg 0 sample_challstr, CHttp 0 (Http True sample_refusal)]) ! 1 = AwaitChallstr
   \<and> chains (connect_run sample_parse (connect_call sample_rnd (projr (constructor sample_auth)))
        [CMsg 0 sample_challstr, CHttp 0 (Http True sample_refusal), CMsg 1 sample_challstr,
         CError 1]) ! 1 = AwaitChallstr\<close>
  by (simp only: sample_connect) code_simp

end
